theory Spec2Isabelle
  imports Complex_Main
begin

section \<open>The control loop and response dispatcher of susi\_linux\<close>

text \<open>
  This theory embeds \<^verbatim>\<open>src/main/states/susi_state_machine_simple.py\<close>: the class
  \<^verbatim>\<open>SusiStateMachine\<close> with its methods \<^verbatim>\<open>start\<close>, \<^verbatim>\<open>hotword_detected_callback\<close>,
  \<^verbatim>\<open>__speak\<close>, \<^verbatim>\<open>recognize_audio\<close>, \<^verbatim>\<open>deal_with_error\<close> and \<^verbatim>\<open>deal_with_answer\<close>.

  The methods act almost only through collaborators (player, lights, TTS, recogniser,
  scheduler, renderer, GPIO, the remote dialogue service).  The model therefore keeps a
  trace of every collaborator call in the order the code makes it, each with its
  outcome, and takes the behaviour of the collaborators (which call raises what, and what
  the value-returning ones return) as a parameter.
\<close>

subsection \<open>Exceptions\<close>

text \<open>
  \<^verbatim>\<open>ConnectionError\<close> is the class imported from \<^verbatim>\<open>requests.exceptions\<close> (line 10), which
  is what the \<^verbatim>\<open>except ConnectionError\<close> clauses name.  \<^verbatim>\<open>KeyboardInterrupt\<close> stands for
  the exceptions that derive from \<^verbatim>\<open>BaseException\<close> but not from \<^verbatim>\<open>Exception\<close>; every
  other constructor is a subclass of \<^verbatim>\<open>Exception\<close>.
\<close>

datatype exc =
    ConnectionError
  | WaitTimeoutError
  | UnknownValueError
  | RequestError
  | AttributeError
  | NameError
  | RuntimeError
  | OtherException string
  | KeyboardInterrupt

definition is_Exception :: "exc \<Rightarrow> bool" where
  "is_Exception e = (e \<noteq> KeyboardInterrupt)"

subsection \<open>Replies\<close>

text \<open>
  A reply is a dictionary; the dispatcher only tests which of nine keys are present and
  reads their values.  Each key is an optional field (\<open>stop\<close> is only tested for presence;
  the field of the key \<^verbatim>\<open>identifier\<close> is written \<open>identifier'\<close>).
  The value of \<^verbatim>\<open>table\<close> has the attributes \<^verbatim>\<open>head\<close> and \<^verbatim>\<open>data\<close>, the value of \<^verbatim>\<open>rss\<close>
  the keys \<^verbatim>\<open>entities\<close> (of which only \<^verbatim>\<open>title\<close> is read) and \<^verbatim>\<open>count\<close>.  A planned action
  is itself a reply dictionary that carries the key \<^verbatim>\<open>plan_delay\<close>, a number of
  milliseconds.  The values have the types of the reply contract (texts, an integer
  count, an integer delay), so the type errors of ill-formed values are not part of the
  model.
\<close>

record table =
  head :: "string list"
  data :: "string list list"

record rss =
  entities :: "string list"
  count :: int

datatype reply = Reply
  (planned_actions: "plan list option")
  (volume: "string option")
  (media_action: "string option")
  (stop: bool)
  (answer: "string option")
  (language: "string option")
  (identifier': "string option")
  (table: "table option")
  (rss: "rss option")
and plan = Plan (plan_delay: int) (plan_reply: reply)

text \<open>The argument of \<^verbatim>\<open>deal_with_answer\<close>: a string, a pre-built reply, or \<^verbatim>\<open>None\<close>.\<close>

datatype payload = Text string | Prebuilt reply | PNone

subsection \<open>Collaborator calls and the trace\<close>

type_synonym audio = nat

text \<open>
  A sound file is named by the two configuration entries handed to \<^verbatim>\<open>os.path.join\<close>
  (the base directory and the file name).
\<close>

type_synonym path = "string \<times> string"

datatype rpayload = RNone | RStr string | RSusiReply "reply option"

datatype logarg = LStr string | LExc exc

datatype call =
    Player_beep path
  | Player_say path
  | Player_volume string
  | Player_pause
  | Player_resume
  | Player_restart
  | Player_next
  | Player_previous
  | Player_shuffle
  | Player_stop
  | Player_play string
  | Player_playytb string
  | Player_restore_softvolume
  | Lights_off
  | Lights_speak
  | Lights_think
  | Lights_wakeup
  | GPIO_output nat bool
  | Renderer_receive_message string rpayload
  | Scheduler_add_event real plan
  | TTS_speak_google_tts string
  | TTS_speak_flite_tts string
  | TTS_speak_watson_tts string
  | Detector_start
  | Detector_stop
  | Susi_ask string
  | Microphone_enter
  | Microphone_exit
  | Recognizer_listen
  | Recognize_google audio string
  | Recognize_ibm string string string audio
  | Recognize_sphinx audio string
  | Recognize_bing audio string string
  | Recognize_deepspeech audio string
  | Internet_on
  | Print string
  | Logger_info string "logarg list"
  | Logger_error string "logarg list"
  | Speak string

text \<open>
  An event is a call with its outcome: \<open>None\<close> when the call returned, \<open>Some e\<close> when it
  raised \<open>e\<close>.  \<open>Speak text\<close> records the entry into the private method \<^verbatim>\<open>__speak\<close> with
  its argument, so that what the dispatcher asks to be spoken can be read off the trace
  whatever text-to-speech back end is configured.  Calls of \<^verbatim>\<open>logger.debug\<close> are not
  recorded.
\<close>

type_synonym event = "call \<times> exc option"

subsection \<open>Configuration, state and environment\<close>

text \<open>
  \<open>config\<close> is \<^verbatim>\<open>self.components.config\<close> (the keys this file reads), \<open>susi_language\<close> is
  \<^verbatim>\<open>susi_config["language"]\<close>, \<open>event_queue\<close> is \<^verbatim>\<open>self.event_queue\<close>.
\<close>

record config =
  data_base_dir :: string
  detection_bell_sound :: string
  recognition_error_sound :: string
  problem_sound :: string
  default_tts :: string
  default_stt :: string
  watson_username :: string
  watson_password :: string
  bing_speech_api_key :: string

record state =
  trace :: "event list"
  config :: config
  susi_language :: string
  event_queue :: "payload list"

text \<open>
  The environment fixes what the collaborators do.  \<open>fails\<close> says, from the events so far,
  whether a call raises and what; the other functions give the values returned by
  \<^verbatim>\<open>susi.ask\<close>, \<^verbatim>\<open>recognizer.listen\<close>, the \<^verbatim>\<open>recognize_*\<close> methods and \<^verbatim>\<open>internet_on\<close>.
  \<open>has_gpio\<close> is the truth value of the module-level \<^verbatim>\<open>GPIO\<close> (lines 23 to 27),
  \<open>has_renderer\<close> says that \<^verbatim>\<open>self.components.renderer\<close> is not \<^verbatim>\<open>None\<close>.
\<close>

record env =
  fails :: "event list \<Rightarrow> call \<Rightarrow> exc option"
  ask_reply :: "event list \<Rightarrow> string \<Rightarrow> reply"
  heard :: "event list \<Rightarrow> audio"
  transcript :: "event list \<Rightarrow> call \<Rightarrow> string"
  internet :: "event list \<Rightarrow> bool"
  has_gpio :: bool
  has_renderer :: bool

subsection \<open>Programs: state passing with exceptions\<close>

type_synonym 'a prog = "state \<Rightarrow> (exc + 'a) \<times> state"

definition ret :: "'a \<Rightarrow> 'a prog" where
  "ret x s = (Inr x, s)"

definition throw :: "exc \<Rightarrow> 'a prog" where
  "throw e s = (Inl e, s)"

definition bnd :: "'a prog \<Rightarrow> ('a \<Rightarrow> 'b prog) \<Rightarrow> 'b prog" where
  "bnd m f s = (case m s of (Inl e, s') \<Rightarrow> (Inl e, s') | (Inr x, s') \<Rightarrow> f x s')"

text \<open>A sequence of statements: the first one that raises ends the sequence.\<close>

fun block :: "unit prog list \<Rightarrow> unit prog" where
  "block [] = ret ()"
| "block (m # ms) = bnd m (\<lambda>_. block ms)"

definition if_then :: "bool \<Rightarrow> unit prog \<Rightarrow> unit prog" where
  "if_then b m = (if b then m else ret ())"

text \<open>
  \<^verbatim>\<open>try: m except ...\<close>: the handler gives the clause that matches the exception, or
  \<open>None\<close> when no clause does and the exception propagates.  An exception raised inside
  a clause propagates too.
\<close>

definition try_except :: "'a prog \<Rightarrow> (exc \<Rightarrow> 'a prog option) \<Rightarrow> 'a prog" where
  "try_except m h s =
     (case m s of
        (Inr x, s') \<Rightarrow> (Inr x, s')
      | (Inl e, s') \<Rightarrow> (case h e of None \<Rightarrow> (Inl e, s') | Some k \<Rightarrow> k s'))"

definition record_event :: "event \<Rightarrow> state \<Rightarrow> state" where
  "record_event ev s = s\<lparr>trace := trace s @ [ev]\<rparr>"

text \<open>A collaborator call: recorded with its outcome, which the environment decides.\<close>

definition call :: "env \<Rightarrow> call \<Rightarrow> unit prog" where
  "call env c s =
     (case fails env (trace s) c of
        None \<Rightarrow> (Inr (), record_event (c, None) s)
      | Some e \<Rightarrow> (Inl e, record_event (c, Some e) s))"

text \<open>A logging call or the entry into \<^verbatim>\<open>__speak\<close>: recorded, never raises.\<close>

definition record_call :: "call \<Rightarrow> unit prog" where
  "record_call c s = (Inr (), record_event (c, None) s)"

definition with_config :: "(config \<Rightarrow> 'a prog) \<Rightarrow> 'a prog" where
  "with_config f s = f (config s) s"

definition with_language :: "(string \<Rightarrow> 'a prog) \<Rightarrow> 'a prog" where
  "with_language f s = f (susi_language s) s"

subsection \<open>Python helpers\<close>

text \<open>\<^verbatim>\<open>xs[0:n]\<close> for a Python integer \<open>n\<close>: a negative \<open>n\<close> counts from the end.\<close>

definition py_slice_to :: "int \<Rightarrow> 'a list \<Rightarrow> 'a list" where
  "py_slice_to n xs =
     (if n < 0 then take (nat (int (length xs) + n)) xs else take (nat n) xs)"

text \<open>\<^verbatim>\<open>s.replace("_", "-")\<close>\<close>

definition replace_underscore :: "string \<Rightarrow> string" where
  "replace_underscore s = map (\<lambda>c. if c = CHR ''_'' then CHR ''-'' else c) s"

definition tab :: string where
  "tab = [CHR 0x09]"

definition newline :: string where
  "newline = [CHR 0x0A]"

definition sound :: "config \<Rightarrow> (config \<Rightarrow> string) \<Rightarrow> path" where
  "sound cfg key = (data_base_dir cfg, key cfg)"

subsection \<open>\<^verbatim>\<open>notify_renderer\<close>, \<^verbatim>\<open>start_detector\<close>, \<^verbatim>\<open>stop_detector\<close>, \<^verbatim>\<open>queue_event\<close>\<close>

definition queue_event :: "payload \<Rightarrow> unit prog" where
  "queue_event ev s = (Inr (), s\<lparr>event_queue := event_queue s @ [ev]\<rparr>)"

definition notify_renderer :: "env \<Rightarrow> string \<Rightarrow> rpayload \<Rightarrow> unit prog" where
  "notify_renderer env message p =
     if_then (has_renderer env) (call env (Renderer_receive_message message p))"

definition start_detector :: "env \<Rightarrow> unit prog" where
  "start_detector env = call env Detector_start"

definition stop_detector :: "env \<Rightarrow> unit prog" where
  "stop_detector env = call env Detector_stop"

subsection \<open>\<^verbatim>\<open>__speak\<close> (lines 215 to 224)\<close>

definition speak :: "env \<Rightarrow> string \<Rightarrow> unit prog" where
  "speak env text =
     block
      [record_call (Speak text),
       with_config (\<lambda>cfg.
         if_then (default_tts cfg = ''google'') (call env (TTS_speak_google_tts text))),
       with_config (\<lambda>cfg.
         if default_tts cfg = ''flite'' then
           block [record_call (Logger_info ''Using flite for TTS'' []),
                  call env (TTS_speak_flite_tts text)]
         else if_then (default_tts cfg = ''watson'') (call env (TTS_speak_watson_tts text)))]"

subsection \<open>\<^verbatim>\<open>recognize_audio\<close> (lines 226 to 253)\<close>

text \<open>A \<^verbatim>\<open>recognize_*\<close> call: raises as the environment says, else returns its transcript.\<close>

definition recognize :: "env \<Rightarrow> call \<Rightarrow> string option prog" where
  "recognize env c s = bnd (call env c) (\<lambda>_. ret (Some (transcript env (trace s) c))) s"

definition internet_on :: "env \<Rightarrow> bool prog" where
  "internet_on env s = bnd (call env Internet_on) (\<lambda>_. ret (internet env (trace s))) s"

definition set_default_stt :: "string \<Rightarrow> unit prog" where
  "set_default_stt v s = (Inr (), s\<lparr>config := (config s)\<lparr>default_stt := v\<rparr>\<rparr>)"

text \<open>
  The method returns the recognised text; when no branch of the \<^verbatim>\<open>if\<close>/\<^verbatim>\<open>elif\<close> chain
  matches the configured provider it falls off the end and returns \<^verbatim>\<open>None\<close>.
\<close>

definition recognize_audio :: "env \<Rightarrow> audio \<Rightarrow> string option prog" where
  "recognize_audio env audio =
     with_config (\<lambda>cfg. with_language (\<lambda>lang.
       bnd (record_call (Logger_info ''Trying to recognize audio with %s in language: %s''
                    [LStr (default_stt cfg), LStr lang])) (\<lambda>_.
       if default_stt cfg = ''google'' then
         recognize env (Recognize_google audio lang)
       else if default_stt cfg = ''watson'' then
         recognize env
           (Recognize_ibm (watson_username cfg) (watson_password cfg) lang audio)
       else if default_stt cfg = ''pocket_sphinx'' then
         bnd (internet_on env) (\<lambda>on.
           if on then
             bnd (set_default_stt ''google'') (\<lambda>_.
               recognize env (Recognize_google audio (replace_underscore lang)))
           else
             recognize env (Recognize_sphinx audio (replace_underscore lang)))
       else if default_stt cfg = ''bing'' then
         recognize env (Recognize_bing audio (bing_speech_api_key cfg) lang)
       else if default_stt cfg = ''deepspeech-local'' then
         recognize env (Recognize_deepspeech audio (replace_underscore lang))
       else ret None)))"

subsection \<open>\<^verbatim>\<open>deal_with_error\<close> (lines 256 to 285)\<close>

text \<open>
  Lines 266 and 267 assign to \<^verbatim>\<open>config['default_tts']\<close> and \<^verbatim>\<open>config['default_stt']\<close>.
  The module binds no name \<^verbatim>\<open>config\<close> (it imports \<^verbatim>\<open>susi_config\<close>, and the configuration
  in use is \<^verbatim>\<open>self.components.config\<close>), and the method has no such local: evaluating
  the name raises \<^verbatim>\<open>NameError\<close> before anything is stored.
\<close>

definition global_config_assign :: "string \<Rightarrow> string \<Rightarrow> unit prog" where
  "global_config_assign key v = throw NameError"

definition deal_with_error :: "env \<Rightarrow> string \<Rightarrow> unit prog" where
  "deal_with_error env p =
     (if p = ''RecognitionError'' then
        block
         [notify_renderer env ''error'' (RStr ''recognition''),
          call env Lights_speak,
          with_config (\<lambda>cfg. call env (Player_say (sound cfg recognition_error_sound))),
          call env Lights_off]
      else if p = ''ConnectionError'' then
        block
         [notify_renderer env ''error'' (RStr ''connection''),
          global_config_assign ''default_tts'' ''flite'',
          global_config_assign ''default_stt'' ''pocket_sphinx'',
          call env (Print (''Internet Connection not available'' @ newline)),
          call env Lights_speak,
          call env Lights_off,
          record_call (Logger_info ''Changed to offline providers'' [])]
      else if p = ''ListenTimeout'' then
        block
         [notify_renderer env ''error'' (RStr ''timeout''),
          call env Lights_speak,
          call env Lights_off]
      else
        block
         [call env (Print (''Error: '' @ p @ '' '' @ newline @ newline)),
          notify_renderer env ''error'' RNone,
          call env Lights_speak,
          with_config (\<lambda>cfg. call env (Player_say (sound cfg problem_sound))),
          call env Lights_off])"

subsection \<open>\<^verbatim>\<open>deal_with_answer\<close> (lines 288 to 410)\<close>

definition fallback :: string where
  "fallback = ''I don't have an answer to this''"

text \<open>
  Lines 292 to 297.  \<^verbatim>\<open>susi.ask\<close> raises as the environment says, else returns a reply.
\<close>

definition ask :: "env \<Rightarrow> string \<Rightarrow> reply prog" where
  "ask env q s = bnd (call env (Susi_ask q)) (\<lambda>_. ret (ask_reply env (trace s) q)) s"

definition obtain_reply :: "env \<Rightarrow> payload \<Rightarrow> reply option prog" where
  "obtain_reply env p =
     (case p of
        Text q \<Rightarrow> bnd (ask env q) (\<lambda>r. ret (Some r))
      | Prebuilt r \<Rightarrow> ret (Some r)
      | PNone \<Rightarrow> ret None)"

text \<open>
  Lines 304 to 313.  \<^verbatim>\<open>int(plan['plan_delay']) / 1000\<close> is Python's true division; its
  result is taken here as the exact quotient (Python rounds it to the nearest double).
\<close>

definition step_planned_actions :: "env \<Rightarrow> reply \<Rightarrow> unit prog" where
  "step_planned_actions env reply =
     (case planned_actions reply of
        None \<Rightarrow> ret ()
      | Some plans \<Rightarrow>
          block (map (\<lambda>plan.
            call env (Scheduler_add_event (real_of_int (plan_delay plan) / 1000) plan))
            plans))"

text \<open>
  The steps of lines 318 to 352 may set the local \<^verbatim>\<open>no_answer_needed\<close>; each takes its
  value and returns the new one.
\<close>

definition step_volume :: "env \<Rightarrow> reply \<Rightarrow> bool \<Rightarrow> bool prog" where
  "step_volume env reply no_answer_needed =
     (case volume reply of
        None \<Rightarrow> ret no_answer_needed
      | Some v \<Rightarrow>
          bnd (block
                [call env (Player_volume v),
                 with_config (\<lambda>cfg. call env (Player_say (sound cfg detection_bell_sound)))])
            (\<lambda>_. ret True))"

definition step_media_action :: "env \<Rightarrow> reply \<Rightarrow> bool \<Rightarrow> bool prog" where
  "step_media_action env reply no_answer_needed =
     (case media_action reply of
        None \<Rightarrow> ret no_answer_needed
      | Some action \<Rightarrow>
          if action = ''pause'' then
            bnd (block [call env Player_pause, call env Lights_off, call env Lights_wakeup])
              (\<lambda>_. ret True)
          else if action = ''resume'' then
            bnd (call env Player_resume) (\<lambda>_. ret True)
          else if action = ''restart'' then
            bnd (call env Player_restart) (\<lambda>_. ret True)
          else if action = ''next'' then
            bnd (call env Player_next) (\<lambda>_. ret True)
          else if action = ''previous'' then
            bnd (call env Player_previous) (\<lambda>_. ret True)
          else if action = ''shuffle'' then
            bnd (call env Player_shuffle) (\<lambda>_. ret True)
          else
            bnd (record_call (Logger_error ''Unknown media action: %s'' [LStr action]))
              (\<lambda>_. ret no_answer_needed))"

definition step_stop :: "env \<Rightarrow> reply \<Rightarrow> bool \<Rightarrow> bool prog" where
  "step_stop env reply no_answer_needed =
     (if stop reply then bnd (call env Player_stop) (\<lambda>_. ret True)
      else ret no_answer_needed)"

text \<open>Lines 354 to 365.\<close>

definition step_answer :: "env \<Rightarrow> reply \<Rightarrow> bool \<Rightarrow> unit prog" where
  "step_answer env reply no_answer_needed =
     (case answer reply of
        Some a \<Rightarrow>
          block
           [record_call (Logger_info ''Susi: %s'' [LStr a]),
            call env Lights_off,
            call env Lights_speak,
            speak env a,
            call env Lights_off]
      | None \<Rightarrow>
          if_then (\<not> no_answer_needed \<and> identifier' reply = None)
            (block
              [call env Lights_off,
               call env Lights_speak,
               speak env fallback,
               call env Lights_off]))"

text \<open>Lines 367 to 372.\<close>

definition set_language :: "string \<Rightarrow> unit prog" where
  "set_language l s = (Inr (), s\<lparr>susi_language := l\<rparr>)"

definition step_language :: "reply \<Rightarrow> unit prog" where
  "step_language reply =
     (case language reply of
        None \<Rightarrow> ret ()
      | Some answer_lang \<Rightarrow>
          with_language (\<lambda>lang.
            if_then (answer_lang \<noteq> lang)
              (block
                [record_call (Logger_info ''Switching language to: %s'' [LStr answer_lang]),
                 set_language answer_lang])))"

text \<open>Lines 376 to 382: \<^verbatim>\<open>url[:3]\<close> is \<open>take 3 url\<close> and \<^verbatim>\<open>url[4:]\<close> is \<open>drop 4 url\<close>.\<close>

definition step_identifier :: "env \<Rightarrow> reply \<Rightarrow> unit prog" where
  "step_identifier env reply =
     (case identifier' reply of
        None \<Rightarrow> ret ()
      | Some url \<Rightarrow>
          if take 3 url = ''ytd'' then call env (Player_playytb (drop 4 url))
          else call env (Player_play url))"

text \<open>Lines 384 to 394: \<^verbatim>\<open>table.data[0:4]\<close> is \<open>take 4\<close>.\<close>

definition say_cell :: "env \<Rightarrow> string \<Rightarrow> unit prog" where
  "say_cell env v = block [call env (Print (v @ tab)), speak env v]"

definition say_row :: "env \<Rightarrow> string list \<Rightarrow> unit prog" where
  "say_row env cells = block (map (say_cell env) cells @ [call env (Print newline)])"

definition step_table :: "env \<Rightarrow> reply \<Rightarrow> unit prog" where
  "step_table env reply =
     (case table reply of
        None \<Rightarrow> ret ()
      | Some t \<Rightarrow>
          block [say_row env (head t), block (map (say_row env) (take 4 (data t)))])"

text \<open>Lines 396 to 402: \<^verbatim>\<open>entities[0:count]\<close>, of each entity the title.\<close>

definition step_rss :: "env \<Rightarrow> reply \<Rightarrow> unit prog" where
  "step_rss env reply =
     (case rss reply of
        None \<Rightarrow> ret ()
      | Some feed \<Rightarrow> block (map (speak env) (py_slice_to (count feed) (entities feed))))"

text \<open>
  Line 304, \<^verbatim>\<open>reply.keys()\<close>: when the payload was \<^verbatim>\<open>None\<close> the reply is \<^verbatim>\<open>None\<close>, which has
  no attribute \<^verbatim>\<open>keys\<close>.
\<close>

definition reply_keys :: "reply option \<Rightarrow> reply prog" where
  "reply_keys reply = (case reply of None \<Rightarrow> throw AttributeError | Some r \<Rightarrow> ret r)"

text \<open>The body of the \<^verbatim>\<open>try\<close>, lines 290 to 402.\<close>

definition dispatch_fields :: "env \<Rightarrow> reply \<Rightarrow> unit prog" where
  "dispatch_fields env r =
     bnd (step_planned_actions env r) (\<lambda>_.
     bnd (step_volume env r False) (\<lambda>n1.
     bnd (step_media_action env r n1) (\<lambda>n2.
     bnd (step_stop env r n2) (\<lambda>no_answer_needed.
     block
      [step_answer env r no_answer_needed,
       step_language r,
       step_identifier env r,
       step_table env r,
       step_rss env r]))))"

definition deal_with_answer_body :: "env \<Rightarrow> payload \<Rightarrow> unit prog" where
  "deal_with_answer_body env p =
     bnd (obtain_reply env p) (\<lambda>reply.
     bnd (if_then (has_gpio env) (call env (GPIO_output 27 True))) (\<lambda>_.
     bnd (if_then (has_renderer env)
            (notify_renderer env ''speaking'' (RSusiReply reply))) (\<lambda>_.
     bnd (reply_keys reply) (dispatch_fields env))))"

text \<open>
  Line 405 calls \<^verbatim>\<open>self.to_error\<close>.  The class \<^verbatim>\<open>SusiStateMachine\<close> defines no attribute of
  that name and has no base class: the attribute lookup raises \<^verbatim>\<open>AttributeError\<close>, inside
  the \<^verbatim>\<open>except\<close> clause, from where it propagates.
\<close>

definition to_error :: "string \<Rightarrow> bool prog" where
  "to_error kind = throw AttributeError"

definition deal_with_answer :: "env \<Rightarrow> payload \<Rightarrow> bool prog" where
  "deal_with_answer env p =
     try_except (bnd (deal_with_answer_body env p) (\<lambda>_. ret True))
       (\<lambda>e. if e = ConnectionError then Some (to_error ''ConnectionError'')
            else if is_Exception e then
              Some (bnd (record_call (Logger_error ''Got error: %s'' [LExc e]))
                     (\<lambda>_. ret False))
            else None)"

subsection \<open>\<^verbatim>\<open>hotword_detected_callback\<close> (lines 173 to 213)\<close>

text \<open>
  \<^verbatim>\<open>with self.components.microphone as source\<close>: the microphone is entered, the body
  runs, and the microphone is left however the body ended (normally, by \<^verbatim>\<open>return\<close> or by
  an exception).  An exception of the exit replaces the body's outcome.
\<close>

definition with_microphone :: "env \<Rightarrow> 'a prog \<Rightarrow> 'a prog" where
  "with_microphone env body =
     bnd (call env Microphone_enter) (\<lambda>_ s.
       case body s of
         (r, s') \<Rightarrow>
           (case call env Microphone_exit s' of
              (Inl e, s'') \<Rightarrow> (Inl e, s'')
            | (Inr _, s'') \<Rightarrow> (r, s'')))"

definition listen :: "env \<Rightarrow> audio prog" where
  "listen env s = bnd (call env Recognizer_listen) (\<lambda>_. ret (heard env (trace s))) s"

text \<open>
  Lines 186 to 193.  The result is the captured audio, or \<open>None\<close> when the \<^verbatim>\<open>except\<close>
  clause ran and executed its \<^verbatim>\<open>return\<close>.
\<close>

definition capture :: "env \<Rightarrow> audio option prog" where
  "capture env =
     with_microphone env
       (try_except (bnd (listen env) (\<lambda>a. ret (Some a)))
          (\<lambda>e. if e = WaitTimeoutError then
                 Some (bnd (deal_with_error env ''ListenTimeout'') (\<lambda>_. ret None))
               else None))"

text \<open>Lines 194 to 213.\<close>

definition recognize_and_answer :: "env \<Rightarrow> audio \<Rightarrow> unit prog" where
  "recognize_and_answer env a =
     block
      [if_then (has_gpio env) (call env (GPIO_output 22 False)),
       call env Lights_off,
       call env Lights_think,
       try_except
         (bnd (recognize_audio env a) (\<lambda>v.
          bnd (notify_renderer env ''recognized''
                 (case v of None \<Rightarrow> RNone | Some t \<Rightarrow> RStr t)) (\<lambda>_.
          bnd (deal_with_answer env (case v of None \<Rightarrow> PNone | Some t \<Rightarrow> Text t)) (\<lambda>ok.
          if_then (\<not> ok) (record_call (Logger_error ''Error dealing with answer'' []))))))
         (\<lambda>e. if e = UnknownValueError then
                Some (block
                  [record_call
                     (Logger_error ''UnknownValueError from SpeechRecognition: %s'' [LExc e]),
                   deal_with_error env ''RecognitionError''])
              else None)]"

text \<open>Lines 175 to 184.\<close>

definition begin_listening :: "env \<Rightarrow> unit prog" where
  "begin_listening env =
     block
      [with_config (\<lambda>cfg. call env (Player_beep (sound cfg detection_bell_sound))),
       stop_detector env,
       if_then (has_gpio env) (call env (GPIO_output 22 True)),
       notify_renderer env ''listening'' RNone]"

definition hotword_detected_callback :: "env \<Rightarrow> unit prog" where
  "hotword_detected_callback env =
     bnd (begin_listening env) (\<lambda>_.
     bnd (capture env) (\<lambda>audio.
       case audio of
         None \<Rightarrow> ret ()
       | Some a \<Rightarrow> recognize_and_answer env a))"

subsection \<open>\<^verbatim>\<open>start\<close> (lines 143 to 159)\<close>

text \<open>Lines 146 to 150: the handling step of one iteration.\<close>

definition handle_next :: "env \<Rightarrow> unit prog" where
  "handle_next env s =
     (case event_queue s of
        [] \<Rightarrow> start_detector env s
      | ev # rest \<Rightarrow>
          bnd (deal_with_answer env ev) (\<lambda>_. ret ()) (s\<lparr>event_queue := rest\<rparr>))"

text \<open>Lines 153 to 159.\<close>

definition restore_baseline :: "env \<Rightarrow> unit prog" where
  "restore_baseline env =
     block
      [call env Player_restore_softvolume,
       if_then (has_gpio env)
         (try_except
            (block [call env (GPIO_output 27 False), call env (GPIO_output 22 False)])
            (\<lambda>e. if e = RuntimeError then Some (ret ()) else None))]"

definition start_iteration :: "env \<Rightarrow> unit prog" where
  "start_iteration env = bnd (handle_next env) (\<lambda>_. restore_baseline env)"

text \<open>
  \<^verbatim>\<open>while True\<close> has no exit but an exception.  The loop is run for a given number of
  iterations: \<open>Running s\<close> is the state after that many iterations, all completed, and
  \<open>Crashed e s\<close> says that an iteration raised \<open>e\<close>, which ends \<^verbatim>\<open>start\<close>.
\<close>

datatype loop_result = Running state | Crashed exc state

fun start :: "env \<Rightarrow> nat \<Rightarrow> state \<Rightarrow> loop_result" where
  "start env 0 s = Running s"
| "start env (Suc n) s =
     (case start_iteration env s of
        (Inl e, s') \<Rightarrow> Crashed e s'
      | (Inr _, s') \<Rightarrow> start env n s')"

section \<open>Reading the trace\<close>

text \<open>The events an operation added when it took the state \<open>s\<close> to \<open>s'\<close>.\<close>

definition new_events :: "state \<Rightarrow> state \<Rightarrow> event list" where
  "new_events s s' = drop (length (trace s)) (trace s')"

definition oks :: "call list \<Rightarrow> event list" where
  "oks cs = map (\<lambda>c. (c, None)) cs"

definition emit :: "event list \<Rightarrow> state \<Rightarrow> state" where
  "emit evs s = s\<lparr>trace := trace s @ evs\<rparr>"

text \<open>The texts handed to \<^verbatim>\<open>__speak\<close>, in order.\<close>

definition spoken_calls :: "call list \<Rightarrow> string list" where
  "spoken_calls cs = concat (map (\<lambda>c. case c of Speak t \<Rightarrow> [t] | _ \<Rightarrow> []) cs)"

definition spoken :: "event list \<Rightarrow> string list" where
  "spoken evs = spoken_calls (map fst evs)"

fun is_play :: "call \<Rightarrow> bool" where
  "is_play (Player_play _) = True"
| "is_play (Player_playytb _) = True"
| "is_play _ = False"

definition played :: "event list \<Rightarrow> event list" where
  "played evs = filter (\<lambda>ev. is_play (fst ev)) evs"

fun is_add_event :: "call \<Rightarrow> bool" where
  "is_add_event (Scheduler_add_event _ _) = True"
| "is_add_event _ = False"


fun is_stt :: "call \<Rightarrow> bool" where
  "is_stt (Recognize_google _ _) = True"
| "is_stt (Recognize_ibm _ _ _ _) = True"
| "is_stt (Recognize_sphinx _ _) = True"
| "is_stt (Recognize_bing _ _ _) = True"
| "is_stt (Recognize_deepspeech _ _) = True"
| "is_stt _ = False"

text \<open>
  The calls \<^verbatim>\<open>deal_with_answer\<close> can make, the entry into \<^verbatim>\<open>__speak\<close> apart: it never
  touches the detector, the microphone, the recogniser or the connectivity test.
\<close>

fun dispatch_call :: "call \<Rightarrow> bool" where
  "dispatch_call (Speak _) = False"
| "dispatch_call Detector_start = False"
| "dispatch_call Detector_stop = False"
| "dispatch_call Microphone_enter = False"
| "dispatch_call Microphone_exit = False"
| "dispatch_call Recognizer_listen = False"
| "dispatch_call (Recognize_google _ _) = False"
| "dispatch_call (Recognize_ibm _ _ _ _) = False"
| "dispatch_call (Recognize_sphinx _ _) = False"
| "dispatch_call (Recognize_bing _ _ _) = False"
| "dispatch_call (Recognize_deepspeech _ _) = False"
| "dispatch_call Internet_on = False"
| "dispatch_call Player_restore_softvolume = False"
| "dispatch_call _ = True"

section \<open>What a reply asks for\<close>

text \<open>The reply that \<^verbatim>\<open>deal_with_answer\<close> dispatches for a payload, lines 292 to 297.\<close>

definition reply_of :: "env \<Rightarrow> state \<Rightarrow> payload \<Rightarrow> reply option" where
  "reply_of env s p =
     (case p of
        Text q \<Rightarrow> Some (ask_reply env (trace s) q)
      | Prebuilt r \<Rightarrow> Some r
      | PNone \<Rightarrow> None)"

definition recognized_media_action :: "string \<Rightarrow> bool" where
  "recognized_media_action a =
     (a \<in> set [''pause'', ''resume'', ''restart'', ''next'', ''previous'', ''shuffle''])"

definition media_marks :: "reply \<Rightarrow> bool" where
  "media_marks r =
     (case media_action r of None \<Rightarrow> False | Some a \<Rightarrow> recognized_media_action a)"

text \<open>The value of \<^verbatim>\<open>no_answer_needed\<close> when line 354 is reached.\<close>

definition no_answer_needed :: "reply \<Rightarrow> bool" where
  "no_answer_needed r = (volume r \<noteq> None \<or> media_marks r \<or> stop r)"

definition answer_texts :: "reply \<Rightarrow> bool \<Rightarrow> string list" where
  "answer_texts r n =
     (case answer r of
        Some a \<Rightarrow> [a]
      | None \<Rightarrow> if \<not> n \<and> identifier' r = None then [fallback] else [])"

definition table_texts :: "reply \<Rightarrow> string list" where
  "table_texts r =
     (case table r of None \<Rightarrow> [] | Some t \<Rightarrow> head t @ concat (take 4 (data t)))"

definition rss_texts :: "reply \<Rightarrow> string list" where
  "rss_texts r =
     (case rss r of
        None \<Rightarrow> []
      | Some feed \<Rightarrow> py_slice_to (count feed) (entities feed))"

text \<open>The texts a reply supplies itself: its answer, its table cells, its feed titles.\<close>

definition own_texts :: "reply \<Rightarrow> string list" where
  "own_texts r =
     (case answer r of Some a \<Rightarrow> [a] | None \<Rightarrow> []) @ table_texts r @ rss_texts r"

text \<open>The calls of each step of a dispatch in which no call raises.\<close>

definition speak_calls :: "config \<Rightarrow> string \<Rightarrow> call list" where
  "speak_calls cfg t =
     Speak t #
     (if default_tts cfg = ''google'' then [TTS_speak_google_tts t] else []) @
     (if default_tts cfg = ''flite'' then
        [Logger_info ''Using flite for TTS'' [], TTS_speak_flite_tts t]
      else if default_tts cfg = ''watson'' then [TTS_speak_watson_tts t]
      else [])"

definition planned_calls :: "reply \<Rightarrow> call list" where
  "planned_calls r =
     (case planned_actions r of
        None \<Rightarrow> []
      | Some plans \<Rightarrow>
          map (\<lambda>p. Scheduler_add_event (real_of_int (plan_delay p) / 1000) p) plans)"

definition volume_calls :: "config \<Rightarrow> reply \<Rightarrow> call list" where
  "volume_calls cfg r =
     (case volume r of
        None \<Rightarrow> []
      | Some v \<Rightarrow> [Player_volume v, Player_say (sound cfg detection_bell_sound)])"

definition media_calls :: "reply \<Rightarrow> call list" where
  "media_calls r =
     (case media_action r of
        None \<Rightarrow> []
      | Some a \<Rightarrow>
          if a = ''pause'' then [Player_pause, Lights_off, Lights_wakeup]
          else if a = ''resume'' then [Player_resume]
          else if a = ''restart'' then [Player_restart]
          else if a = ''next'' then [Player_next]
          else if a = ''previous'' then [Player_previous]
          else if a = ''shuffle'' then [Player_shuffle]
          else [Logger_error ''Unknown media action: %s'' [LStr a]])"

definition stop_calls :: "reply \<Rightarrow> call list" where
  "stop_calls r = (if stop r then [Player_stop] else [])"

definition answer_calls :: "config \<Rightarrow> reply \<Rightarrow> bool \<Rightarrow> call list" where
  "answer_calls cfg r n =
     (case answer r of
        Some a \<Rightarrow>
          [Logger_info ''Susi: %s'' [LStr a], Lights_off, Lights_speak] @
          speak_calls cfg a @ [Lights_off]
      | None \<Rightarrow>
          if \<not> n \<and> identifier' r = None then
            [Lights_off, Lights_speak] @ speak_calls cfg fallback @ [Lights_off]
          else [])"

definition language_calls :: "string \<Rightarrow> reply \<Rightarrow> call list" where
  "language_calls lang r =
     (case language r of
        None \<Rightarrow> []
      | Some l \<Rightarrow>
          if l \<noteq> lang then [Logger_info ''Switching language to: %s'' [LStr l]] else [])"

definition language_after :: "string \<Rightarrow> reply \<Rightarrow> string" where
  "language_after lang r = (case language r of None \<Rightarrow> lang | Some l \<Rightarrow> l)"

definition identifier_calls :: "reply \<Rightarrow> call list" where
  "identifier_calls r =
     (case identifier' r of
        None \<Rightarrow> []
      | Some url \<Rightarrow>
          if take 3 url = ''ytd'' then [Player_playytb (drop 4 url)] else [Player_play url])"

definition cell_calls :: "config \<Rightarrow> string \<Rightarrow> call list" where
  "cell_calls cfg v = Print (v @ tab) # speak_calls cfg v"

definition row_calls :: "config \<Rightarrow> string list \<Rightarrow> call list" where
  "row_calls cfg cells = concat (map (cell_calls cfg) cells) @ [Print newline]"

definition table_calls :: "config \<Rightarrow> reply \<Rightarrow> call list" where
  "table_calls cfg r =
     (case table r of
        None \<Rightarrow> []
      | Some t \<Rightarrow> row_calls cfg (head t) @ concat (map (row_calls cfg) (take 4 (data t))))"

definition rss_calls :: "config \<Rightarrow> reply \<Rightarrow> call list" where
  "rss_calls cfg r =
     (case rss r of
        None \<Rightarrow> []
      | Some feed \<Rightarrow>
          concat (map (speak_calls cfg) (py_slice_to (count feed) (entities feed))))"

definition dispatch_calls :: "config \<Rightarrow> string \<Rightarrow> reply \<Rightarrow> call list" where
  "dispatch_calls cfg lang r =
     planned_calls r @ volume_calls cfg r @ media_calls r @ stop_calls r @
     answer_calls cfg r (no_answer_needed r) @ language_calls lang r @
     identifier_calls r @ table_calls cfg r @ rss_calls cfg r"

text \<open>Lines 292 to 302, before the fields are looked at.\<close>

definition preamble_calls :: "env \<Rightarrow> payload \<Rightarrow> reply \<Rightarrow> call list" where
  "preamble_calls env p r =
     (case p of Text q \<Rightarrow> [Susi_ask q] | _ \<Rightarrow> []) @
     (if has_gpio env then [GPIO_output 27 True] else []) @
     (if has_renderer env then [Renderer_receive_message ''speaking'' (RSusiReply (Some r))]
      else [])"

section \<open>Properties of every run\<close>

text \<open>
  \<open>admits R C\<close>: the relation \<open>R\<close> between states is reflexive and transitive, and is
  kept by recording any call that satisfies \<open>C\<close> (with any outcome) and by the three
  assignments the code makes to its own state.  \<open>post R C m\<close>: for such a relation,
  whatever the outcome of \<open>m\<close>, the states before and after are related by \<open>R\<close>.
\<close>

definition admits :: "(state \<Rightarrow> state \<Rightarrow> bool) \<Rightarrow> (call \<Rightarrow> bool) \<Rightarrow> bool" where
  "admits R C =
     ((\<forall>s. R s s) \<and>
      (\<forall>a b c. R a b \<longrightarrow> R b c \<longrightarrow> R a c) \<and>
      (\<forall>s c x. C c \<longrightarrow> R s (record_event (c, x) s)) \<and>
      (\<forall>s l. R s (s\<lparr>susi_language := l\<rparr>)) \<and>
      (\<forall>s q. R s (s\<lparr>event_queue := q\<rparr>)) \<and>
      (\<forall>s. R s (s\<lparr>config := (config s)\<lparr>default_stt := ''google''\<rparr>\<rparr>)))"

definition post :: "(state \<Rightarrow> state \<Rightarrow> bool) \<Rightarrow> (call \<Rightarrow> bool) \<Rightarrow> 'a prog \<Rightarrow> bool" where
  "post R C m = (admits R C \<longrightarrow> (\<forall>s. R s (snd (m s))))"

text \<open>Only events that satisfy \<open>P\<close> were added.\<close>

definition adds_only :: "(call \<Rightarrow> bool) \<Rightarrow> state \<Rightarrow> state \<Rightarrow> bool" where
  "adds_only P s s' = (\<exists>evs. trace s' = trace s @ evs \<and> (\<forall>ev\<in>set evs. P (fst ev)))"

text \<open>The provider \<^verbatim>\<open>google\<close>, once configured, stays configured.\<close>

definition stays_google :: "state \<Rightarrow> state \<Rightarrow> bool" where
  "stays_google s s' =
     (default_stt (config s) = ''google'' \<longrightarrow> default_stt (config s') = ''google'')"

section \<open>Concrete inputs\<close>

definition config0 :: config where
  "config0 =
     \<lparr>data_base_dir = ''data'', detection_bell_sound = ''bell.wav'',
      recognition_error_sound = ''recognition.wav'', problem_sound = ''problem.wav'',
      default_tts = ''google'', default_stt = ''google'',
      watson_username = '''', watson_password = '''', bing_speech_api_key = ''''\<rparr>"

definition state0 :: state where
  "state0 = \<lparr>trace = [], config = config0, susi_language = ''en'', event_queue = []\<rparr>"

text \<open>The reply with no field at all.\<close>

definition no_fields :: reply where
  "no_fields = Reply None None None False None None None None None"

text \<open>An environment in which no call raises.\<close>

definition env_ok :: env where
  "env_ok =
     \<lparr>fails = (\<lambda>_ _. None), ask_reply = (\<lambda>_ _. no_fields), heard = (\<lambda>_. 0),
      transcript = (\<lambda>_ _. ''hello''), internet = (\<lambda>_. True),
      has_gpio = True, has_renderer = True\<rparr>"

text \<open>The dialogue service cannot be reached: \<^verbatim>\<open>susi.ask\<close> raises \<^verbatim>\<open>ConnectionError\<close>.\<close>

definition env_offline :: env where
  "env_offline =
     env_ok\<lparr>fails := (\<lambda>_ c. case c of Susi_ask _ \<Rightarrow> Some ConnectionError | _ \<Rightarrow> None)\<rparr>"

text \<open>The text-to-speech service cannot be reached.\<close>

definition env_tts_down :: env where
  "env_tts_down =
     env_ok\<lparr>fails :=
       (\<lambda>_ c. case c of TTS_speak_google_tts _ \<Rightarrow> Some ConnectionError | _ \<Rightarrow> None)\<rparr>"

text \<open>The hotword detector fails to start.\<close>

definition env_detector_down :: env where
  "env_detector_down =
     env_ok\<lparr>fails :=
       (\<lambda>_ c. case c of Detector_start \<Rightarrow> Some (OtherException ''OSError'') | _ \<Rightarrow> None)\<rparr>"

text \<open>
  What lines 154 to 159 can add to the trace when they complete: nothing without GPIO;
  otherwise both lines written, or the first write or the second raising the
  \<^verbatim>\<open>RuntimeError\<close> that the code ignores.
\<close>

definition gpio_resets :: "env \<Rightarrow> event list list" where
  "gpio_resets env =
     (if has_gpio env then
        [[(GPIO_output 27 False, None), (GPIO_output 22 False, None)],
         [(GPIO_output 27 False, Some RuntimeError)],
         [(GPIO_output 27 False, None), (GPIO_output 22 False, Some RuntimeError)]]
      else [[]])"

text \<open>
  The calls of lines 175 to 186, up to the opening of the microphone, and those of the
  handling of \<^verbatim>\<open>ListenTimeout\<close> (lines 273 to 277), when none of them raises.
\<close>

definition capture_start_calls :: "env \<Rightarrow> config \<Rightarrow> call list" where
  "capture_start_calls env cfg =
     [Player_beep (sound cfg detection_bell_sound), Detector_stop] @
     (if has_gpio env then [GPIO_output 22 True] else []) @
     (if has_renderer env then [Renderer_receive_message ''listening'' RNone] else []) @
     [Microphone_enter]"

definition timeout_calls :: "env \<Rightarrow> call list" where
  "timeout_calls env =
     (if has_renderer env then [Renderer_receive_message ''error'' (RStr ''timeout'')] else []) @
     [Lights_speak, Lights_off]"

fun capture_call :: "call \<Rightarrow> bool" where
  "capture_call (Player_beep _) = True"
| "capture_call Detector_stop = True"
| "capture_call (GPIO_output _ _) = True"
| "capture_call (Renderer_receive_message _ _) = True"
| "capture_call Microphone_enter = True"
| "capture_call Microphone_exit = True"
| "capture_call Lights_speak = True"
| "capture_call Lights_off = True"
| "capture_call _ = False"

text \<open>The microphone hears nothing: \<^verbatim>\<open>recognizer.listen\<close> raises \<^verbatim>\<open>WaitTimeoutError\<close>.\<close>

definition env_silent :: env where
  "env_silent =
     env_ok\<lparr>fails :=
       (\<lambda>_ c. case c of Recognizer_listen \<Rightarrow> Some WaitTimeoutError | _ \<Rightarrow> None)\<rparr>"

section \<open>The connectivity test of \<^verbatim>\<open>recognize_audio\<close>\<close>

text \<open>The logging call that opens \<^verbatim>\<open>recognize_audio\<close> (line 227).\<close>

definition stt_log :: "state \<Rightarrow> event" where
  "stt_log s =
     (Logger_info ''Trying to recognize audio with %s in language: %s''
        [LStr (default_stt (config s)), LStr (susi_language s)], None)"

text \<open>
  What \<^verbatim>\<open>internet_on()\<close> does when \<^verbatim>\<open>recognize_audio\<close>, entered in the state \<open>s\<close>, calls it:
  it returns \<^verbatim>\<open>True\<close> (\<open>online\<close>) or returns \<^verbatim>\<open>False\<close> (\<open>offline\<close>).
\<close>

definition online :: "env \<Rightarrow> state \<Rightarrow> bool" where
  "online env s =
     (fails env (trace s @ [stt_log s]) Internet_on = None \<and>
      internet env (trace s @ [stt_log s]))"

definition offline :: "env \<Rightarrow> state \<Rightarrow> bool" where
  "offline env s =
     (fails env (trace s @ [stt_log s]) Internet_on = None \<and>
      \<not> internet env (trace s @ [stt_log s]))"

fun loop_state :: "loop_result \<Rightarrow> state" where
  "loop_state (Running s) = s"
| "loop_state (Crashed e s) = s"

text \<open>
  The network is reachable when the first call is made and unreachable afterwards; the
  configured recogniser is \<^verbatim>\<open>pocket_sphinx\<close> and the language \<^verbatim>\<open>en_US\<close>.
\<close>

definition env_net_drops :: env where
  "env_net_drops = env_ok\<lparr>internet := (\<lambda>tr. length tr \<le> 1)\<rparr>"

definition state_sphinx :: state where
  "state_sphinx =
     state0\<lparr>config := config0\<lparr>default_stt := ''pocket_sphinx''\<rparr>, susi_language := ''en_US''\<rparr>"

section \<open>Running programs\<close>

lemma emit_simps [simp]:
  "trace (emit evs s) = trace s @ evs"
  "config (emit evs s) = config s"
  "susi_language (emit evs s) = susi_language s"
  "event_queue (emit evs s) = event_queue s"
  "emit evs (emit evs' s) = emit (evs' @ evs) s"
  "emit [] s = s"
  by (simp_all add: emit_def)

lemma emit_language [simp]:
  "emit evs (s\<lparr>susi_language := l\<rparr>) = (emit evs s)\<lparr>susi_language := l\<rparr>"
  by (simp add: emit_def)

lemma record_event_emit: "record_event ev s = emit [ev] s"
  by (simp add: record_event_def emit_def)

lemma new_events_emit [simp]: "new_events s (emit evs s) = evs"
  by (simp add: new_events_def)

lemma new_events_emit_language [simp]:
  "new_events s ((emit evs s)\<lparr>susi_language := l\<rparr>) = evs"
  by (simp add: new_events_def)

lemma oks_append [simp]: "oks (xs @ ys) = oks xs @ oks ys"
  by (simp add: oks_def)

lemma oks_Nil [simp]: "oks [] = []"
  by (simp add: oks_def)

lemma oks_Cons [simp]: "oks (c # cs) = (c, None) # oks cs"
  by (simp add: oks_def)

lemma map_fst_oks [simp]: "map fst (oks cs) = cs"
  by (simp add: oks_def comp_def)

lemma call_eq:
  "call env c s =
     (case fails env (trace s) c of
        None \<Rightarrow> (Inr (), emit [(c, None)] s)
      | Some e \<Rightarrow> (Inl e, emit [(c, Some e)] s))"
  by (simp add: call_def record_event_emit split: option.splits)

lemma record_call_eq: "record_call c s = (Inr (), emit [(c, None)] s)"
  by (simp add: record_call_def record_event_emit)

lemma with_config_app [simp]: "with_config f s = f (config s) s"
  by (simp add: with_config_def)

lemma with_language_app [simp]: "with_language f s = f (susi_language s) s"
  by (simp add: with_language_def)

lemma bnd_ret: "bnd (ret x) f = f x"
  by (rule ext) (simp add: bnd_def ret_def)

lemma bnd_throw: "bnd (throw e) f = throw e"
  by (rule ext) (simp add: bnd_def throw_def)

subsection \<open>Runs that return\<close>

lemma ret_Inr [simp]: "(ret x s = (Inr y, s')) = (y = x \<and> s' = s)"
  by (auto simp: ret_def)

lemma throw_Inr [simp]: "(throw e s = (Inr y, s')) = False"
  by (simp add: throw_def)

lemma bnd_Inr:
  "(bnd m f s = (Inr y, s'')) = (\<exists>x s'. m s = (Inr x, s') \<and> f x s' = (Inr y, s''))"
  by (auto simp: bnd_def split: prod.splits sum.splits)

lemma call_Inr:
  "(call env c s = (Inr u, s')) = (fails env (trace s) c = None \<and> s' = emit [(c, None)] s)"
  by (auto simp: call_eq split: option.splits)

lemma record_call_Inr [simp]: "(record_call c s = (Inr u, s')) = (s' = emit [(c, None)] s)"
  by (auto simp: record_call_eq)

lemma if_then_Inr:
  "(if_then b m s = (Inr u, s')) = (if b then m s = (Inr u, s') else s' = s)"
  by (auto simp: if_then_def)

lemma block_Nil_Inr [simp]: "(block [] s = (Inr u, s')) = (s' = s)"
  by auto

lemma block_append_Inr:
  "(block (ms @ ns) s = (Inr u, s'')) =
   (\<exists>s'. block ms s = (Inr (), s') \<and> block ns s' = (Inr (), s''))"
  by (induction ms arbitrary: s) (auto simp: bnd_Inr)

lemma block_map_Inr:
  assumes step: "\<And>x s s'. f x s = (Inr (), s') \<Longrightarrow> s' = emit (oks (g (config s) x)) s"
    and run: "block (map f xs) s = (Inr (), s')"
  shows "s' = emit (oks (concat (map (g (config s)) xs))) s"
  using run
proof (induction xs arbitrary: s)
  case Nil
  then show ?case by simp
next
  case (Cons x xs)
  from Cons.prems obtain s1 where a: "f x s = (Inr (), s1)"
    and b: "block (map f xs) s1 = (Inr (), s')"
    by (auto simp: bnd_Inr)
  from step [OF a] have s1: "s1 = emit (oks (g (config s) x)) s" .
  from Cons.IH [OF b] s1 show ?case by simp
qed

subsection \<open>The steps of a dispatch that returns\<close>

lemma speak_Inr:
  "speak env t s = (Inr (), s') \<Longrightarrow> s' = emit (oks (speak_calls (config s) t)) s"
  by (auto simp: speak_def speak_calls_def bnd_Inr call_Inr if_then_Inr split: if_splits)

lemma step_planned_actions_Inr:
  assumes "step_planned_actions env r s = (Inr (), s')"
  shows "s' = emit (oks (planned_calls r)) s"
proof (cases "planned_actions r")
  case None
  with assms show ?thesis by (simp add: step_planned_actions_def planned_calls_def)
next
  case (Some plans)
  let ?f = "\<lambda>p. call env (Scheduler_add_event (real_of_int (plan_delay p) / 1000) p)"
  let ?g = "\<lambda>(cfg::config) p. [Scheduler_add_event (real_of_int (plan_delay p) / 1000) p]"
  from assms Some have run: "block (map ?f plans) s = (Inr (), s')"
    by (simp add: step_planned_actions_def)
  have "s' = emit (oks (concat (map (?g (config s)) plans))) s"
    by (rule block_map_Inr [of ?f ?g, OF _ run]) (simp add: call_Inr)
  moreover have "concat (map (?g (config s)) plans) = planned_calls r"
    using Some by (induction plans) (simp_all add: planned_calls_def)
  ultimately show ?thesis by simp
qed

lemma step_volume_Inr:
  "step_volume env r n s = (Inr n', s') \<Longrightarrow>
   s' = emit (oks (volume_calls (config s) r)) s \<and> n' = (n \<or> volume r \<noteq> None)"
  by (auto simp: step_volume_def volume_calls_def bnd_Inr call_Inr split: option.splits)

lemma step_media_action_Inr:
  "step_media_action env r n s = (Inr n', s') \<Longrightarrow>
   s' = emit (oks (media_calls r)) s \<and> n' = (n \<or> media_marks r)"
  unfolding step_media_action_def media_calls_def media_marks_def recognized_media_action_def
  by (auto simp: bnd_Inr call_Inr split: option.splits if_splits)

lemma step_stop_Inr:
  "step_stop env r n s = (Inr n', s') \<Longrightarrow>
   s' = emit (oks (stop_calls r)) s \<and> n' = (n \<or> stop r)"
  by (auto simp: step_stop_def stop_calls_def bnd_Inr call_Inr split: if_splits)

lemma step_answer_Inr:
  "step_answer env r n s = (Inr (), s') \<Longrightarrow> s' = emit (oks (answer_calls (config s) r n)) s"
  unfolding step_answer_def answer_calls_def
  by (auto simp: bnd_Inr call_Inr if_then_Inr split: option.splits if_splits dest!: speak_Inr)

lemma step_language_Inr:
  "step_language r s = (Inr (), s') \<Longrightarrow>
   s' = (emit (oks (language_calls (susi_language s) r)) s)
          \<lparr>susi_language := language_after (susi_language s) r\<rparr>"
  unfolding step_language_def language_calls_def language_after_def
  by (auto simp: bnd_Inr if_then_Inr set_language_def split: option.splits if_splits)

lemma step_identifier_Inr:
  "step_identifier env r s = (Inr (), s') \<Longrightarrow> s' = emit (oks (identifier_calls r)) s"
  unfolding step_identifier_def identifier_calls_def
  by (auto simp: call_Inr split: option.splits if_splits)

lemma say_cell_Inr:
  "say_cell env v s = (Inr (), s') \<Longrightarrow> s' = emit (oks (cell_calls (config s) v)) s"
  unfolding say_cell_def cell_calls_def
  by (auto simp: bnd_Inr call_Inr dest!: speak_Inr)

lemma say_row_Inr:
  assumes "say_row env cells s = (Inr (), s')"
  shows "s' = emit (oks (row_calls (config s) cells)) s"
proof -
  from assms obtain s1 where a: "block (map (say_cell env) cells) s = (Inr (), s1)"
    and b: "call env (Print newline) s1 = (Inr (), s')"
    by (auto simp: say_row_def block_append_Inr bnd_Inr)
  from block_map_Inr [of "say_cell env" cell_calls, OF say_cell_Inr a]
  have "s1 = emit (oks (concat (map (cell_calls (config s)) cells))) s" .
  with b show ?thesis by (simp add: call_Inr row_calls_def)
qed

lemma step_table_Inr:
  assumes "step_table env r s = (Inr (), s')"
  shows "s' = emit (oks (table_calls (config s) r)) s"
proof (cases "table r")
  case None
  with assms show ?thesis by (simp add: step_table_def table_calls_def)
next
  case (Some t)
  with assms obtain s1 where a: "say_row env (head t) s = (Inr (), s1)"
    and b: "block (map (say_row env) (take 4 (data t))) s1 = (Inr (), s')"
    by (auto simp: step_table_def bnd_Inr)
  from say_row_Inr [OF a] have s1: "s1 = emit (oks (row_calls (config s) (head t))) s" .
  from block_map_Inr [of "say_row env" row_calls, OF say_row_Inr b] s1 Some
  show ?thesis by (simp add: table_calls_def)
qed

lemma step_rss_Inr:
  assumes "step_rss env r s = (Inr (), s')"
  shows "s' = emit (oks (rss_calls (config s) r)) s"
proof (cases "rss r")
  case None
  with assms show ?thesis by (simp add: step_rss_def rss_calls_def)
next
  case (Some feed)
  with assms have
    "block (map (speak env) (py_slice_to (count feed) (entities feed))) s = (Inr (), s')"
    by (simp add: step_rss_def)
  from block_map_Inr [of "speak env" speak_calls, OF speak_Inr this] Some
  show ?thesis by (simp add: rss_calls_def)
qed

lemma dispatch_fields_Inr:
  assumes "dispatch_fields env r s = (Inr (), s')"
  shows "s' = (emit (oks (dispatch_calls (config s) (susi_language s) r)) s)
                \<lparr>susi_language := language_after (susi_language s) r\<rparr>"
proof -
  from assms obtain s1 n1 s2 n2 s3 n3 s4 s5 s6 s7 s8 where
    1: "step_planned_actions env r s = (Inr (), s1)" and
    2: "step_volume env r False s1 = (Inr n1, s2)" and
    3: "step_media_action env r n1 s2 = (Inr n2, s3)" and
    4: "step_stop env r n2 s3 = (Inr n3, s4)" and
    5: "step_answer env r n3 s4 = (Inr (), s5)" and
    6: "step_language r s5 = (Inr (), s6)" and
    7: "step_identifier env r s6 = (Inr (), s7)" and
    8: "step_table env r s7 = (Inr (), s8)" and
    9: "step_rss env r s8 = (Inr (), s')"
    unfolding dispatch_fields_def by (auto simp: bnd_Inr)
  note f = step_planned_actions_Inr [OF 1] step_volume_Inr [OF 2] step_media_action_Inr [OF 3]
    step_stop_Inr [OF 4] step_answer_Inr [OF 5] step_language_Inr [OF 6]
    step_identifier_Inr [OF 7] step_table_Inr [OF 8] step_rss_Inr [OF 9]
  from f have n3: "n3 = no_answer_needed r" by (simp add: no_answer_needed_def)
  from f show ?thesis unfolding n3 by (simp add: dispatch_calls_def)
qed

lemma deal_with_answer_True:
  "(deal_with_answer env p s = (Inr True, s')) =
   (deal_with_answer_body env p s = (Inr (), s'))"
  unfolding deal_with_answer_def try_except_def to_error_def
  by (auto simp: bnd_Inr throw_def record_call_eq bnd_def ret_def
           split: prod.splits sum.splits if_splits)

lemma deal_with_answer_body_Inr:
  assumes "deal_with_answer_body env p s = (Inr (), s')"
  shows "\<exists>r. reply_of env s p = Some r \<and>
             s' = (emit (oks (preamble_calls env p r @
                              dispatch_calls (config s) (susi_language s) r)) s)
                    \<lparr>susi_language := language_after (susi_language s) r\<rparr>"
proof -
  from assms obtain ro s1 s2 s3 r where
    1: "obtain_reply env p s = (Inr ro, s1)" and
    2: "if_then (has_gpio env) (call env (GPIO_output 27 True)) s1 = (Inr (), s2)" and
    3: "if_then (has_renderer env) (notify_renderer env ''speaking'' (RSusiReply ro)) s2
          = (Inr (), s3)" and
    4: "ro = Some r" and
    5: "dispatch_fields env r s3 = (Inr (), s')"
    unfolding deal_with_answer_body_def reply_keys_def
    by (auto simp: bnd_Inr split: option.splits)
  from 1 4 have a: "reply_of env s p = Some r \<and>
      s1 = emit (oks (case p of Text q \<Rightarrow> [Susi_ask q] | _ \<Rightarrow> [])) s"
    by (auto simp: obtain_reply_def reply_of_def ask_def bnd_Inr call_Inr split: payload.splits)
  from 2 have b: "s2 = emit (oks (if has_gpio env then [GPIO_output 27 True] else [])) s1"
    by (auto simp: if_then_Inr call_Inr split: if_splits)
  from 3 4 have c: "s3 = emit (oks (if has_renderer env
      then [Renderer_receive_message ''speaking'' (RSusiReply (Some r))] else [])) s2"
    by (auto simp: if_then_Inr notify_renderer_def call_Inr split: if_splits)
  from dispatch_fields_Inr [OF 5] a b c show ?thesis
    by (simp add: preamble_calls_def)
qed

lemma deal_with_answer_Inr_True:
  assumes "deal_with_answer env p s = (Inr True, s')" and "reply_of env s p = Some r"
  shows "new_events s s' =
           oks (preamble_calls env p r @ dispatch_calls (config s) (susi_language s) r)"
proof -
  from assms(1) have "deal_with_answer_body env p s = (Inr (), s')"
    by (simp add: deal_with_answer_True)
  from deal_with_answer_body_Inr [OF this] assms(2) show ?thesis by auto
qed

subsection \<open>Reading the calls of a dispatch\<close>

lemma spoken_calls_Nil [simp]: "spoken_calls [] = []"
  by (simp add: spoken_calls_def)

lemma spoken_calls_append [simp]: "spoken_calls (xs @ ys) = spoken_calls xs @ spoken_calls ys"
  by (simp add: spoken_calls_def)

lemma spoken_calls_Cons:
  "spoken_calls (c # cs) = (case c of Speak t \<Rightarrow> [t] | _ \<Rightarrow> []) @ spoken_calls cs"
  by (simp add: spoken_calls_def)

lemma spoken_append [simp]: "spoken (xs @ ys) = spoken xs @ spoken ys"
  by (simp add: spoken_def)

lemma spoken_oks [simp]: "spoken (oks cs) = spoken_calls cs"
  by (simp add: spoken_def)

lemma spoken_speak_calls [simp]: "spoken_calls (speak_calls cfg t) = [t]"
  by (simp add: speak_calls_def spoken_calls_Cons)

lemma spoken_speak_calls_all [simp]: "spoken_calls (concat (map (speak_calls cfg) ts)) = ts"
  by (induction ts) simp_all

lemma spoken_cell_calls [simp]: "spoken_calls (cell_calls cfg v) = [v]"
  by (simp add: cell_calls_def spoken_calls_Cons)

lemma spoken_row_calls [simp]: "spoken_calls (row_calls cfg cells) = cells"
  by (induction cells) (simp_all add: row_calls_def spoken_calls_Cons)

lemma spoken_row_calls_all [simp]:
  "spoken_calls (concat (map (row_calls cfg) rows)) = concat rows"
  by (induction rows) simp_all

lemma spoken_planned_calls [simp]: "spoken_calls (planned_calls r) = []"
proof -
  have "spoken_calls (map (\<lambda>p. Scheduler_add_event (f p) p) plans) = []" for f plans
    by (induction plans) (simp_all add: spoken_calls_Cons)
  then show ?thesis by (simp add: planned_calls_def split: option.splits)
qed

lemma spoken_preamble_calls [simp]: "spoken_calls (preamble_calls env p r) = []"
  by (simp add: preamble_calls_def spoken_calls_Cons split: payload.splits)

lemma spoken_answer_calls [simp]: "spoken_calls (answer_calls cfg r n) = answer_texts r n"
  by (simp add: answer_calls_def answer_texts_def spoken_calls_Cons split: option.splits)

lemma spoken_dispatch_calls:
  "spoken_calls (dispatch_calls cfg lang r) =
     answer_texts r (no_answer_needed r) @ table_texts r @ rss_texts r"
  by (simp add: dispatch_calls_def volume_calls_def media_calls_def stop_calls_def
        language_calls_def identifier_calls_def table_calls_def rss_calls_def
        table_texts_def rss_texts_def spoken_calls_Cons split: option.splits)

lemma no_play_speak_calls [simp]: "filter is_play (speak_calls cfg t) = []"
  by (simp add: speak_calls_def)

lemma no_play_speak_calls_all [simp]: "filter is_play (concat (map (speak_calls cfg) ts)) = []"
  by (induction ts) simp_all

lemma no_play_row_calls [simp]: "filter is_play (row_calls cfg cells) = []"
  by (induction cells) (simp_all add: row_calls_def cell_calls_def)

lemma no_play_row_calls_all [simp]: "filter is_play (concat (map (row_calls cfg) rows)) = []"
  by (induction rows) simp_all

lemma no_play_speech_steps [simp]:
  "filter is_play (answer_calls cfg r n) = []"
  "filter is_play (language_calls lang r) = []"
  "filter is_play (table_calls cfg r) = []"
  "filter is_play (rss_calls cfg r) = []"
  by (simp_all add: answer_calls_def language_calls_def table_calls_def rss_calls_def
        split: option.splits)

lemma no_add_event_speak_calls [simp]: "filter is_add_event (speak_calls cfg t) = []"
  by (simp add: speak_calls_def)

lemma no_add_event_speak_calls_all [simp]: "filter is_add_event (concat (map (speak_calls cfg) ts)) = []"
  by (induction ts) simp_all

lemma no_add_event_row_calls [simp]: "filter is_add_event (row_calls cfg cells) = []"
  by (induction cells) (simp_all add: row_calls_def cell_calls_def)

lemma no_add_event_row_calls_all [simp]: "filter is_add_event (concat (map (row_calls cfg) rows)) = []"
  by (induction rows) simp_all

lemma no_add_event_speech_steps [simp]:
  "filter is_add_event (answer_calls cfg r n) = []"
  "filter is_add_event (language_calls lang r) = []"
  "filter is_add_event (table_calls cfg r) = []"
  "filter is_add_event (rss_calls cfg r) = []"
  by (simp_all add: answer_calls_def language_calls_def table_calls_def rss_calls_def
        split: option.splits)

lemma filter_planned_calls:
  "filter is_play (planned_calls r) = []"
  "filter is_add_event (planned_calls r) = planned_calls r"
proof -
  have "filter is_play (map (\<lambda>p. Scheduler_add_event (f p) p) plans) = []" for f plans
    by (induction plans) (simp_all add:)
  then show "filter is_play (planned_calls r) = []"
    by (simp add: planned_calls_def split: option.splits)
  have "filter is_add_event (map (\<lambda>p. Scheduler_add_event (f p) p) plans) =
          map (\<lambda>p. Scheduler_add_event (f p) p) plans" for f plans
    by (induction plans) (simp_all add:)
  then show "filter is_add_event (planned_calls r) = planned_calls r"
    by (simp add: planned_calls_def split: option.splits)
qed

lemma played_dispatch_calls:
  "filter is_play (preamble_calls env p r @ dispatch_calls cfg lang r) = identifier_calls r"
  by (simp add: dispatch_calls_def preamble_calls_def filter_planned_calls
        volume_calls_def media_calls_def stop_calls_def identifier_calls_def
        split: option.splits payload.splits)


lemma played_oks [simp]: "played (oks cs) = oks (filter is_play cs)"
  by (simp add: played_def oks_def filter_map comp_def)


lemma stop_in_dispatch_calls:
  "stop r \<Longrightarrow> Player_stop \<in> set (preamble_calls env p r @ dispatch_calls cfg lang r)"
  by (simp add: dispatch_calls_def stop_calls_def)

lemma in_oks [simp]: "((c, None) \<in> set (oks cs)) = (c \<in> set cs)"
  by (auto simp: oks_def)

lemma deal_with_answer_spoken:
  assumes "deal_with_answer env p s = (Inr True, s')" and "reply_of env s p = Some r"
  shows "spoken (new_events s s') =
           answer_texts r (no_answer_needed r) @ table_texts r @ rss_texts r"
  by (simp add: deal_with_answer_Inr_True [OF assms] spoken_dispatch_calls)

subsection \<open>Properties of every run\<close>

lemma admitsD:
  assumes "admits R C"
  shows "R s s"
    and "R a b \<Longrightarrow> R b c \<Longrightarrow> R a c"
    and "C x \<Longrightarrow> R s (emit [(x, out)] s)"
    and "R s (s\<lparr>susi_language := l\<rparr>)"
    and "R s (s\<lparr>event_queue := q\<rparr>)"
    and "R s (s\<lparr>config := (config s)\<lparr>default_stt := ''google''\<rparr>\<rparr>)"
  using assms unfolding admits_def record_event_emit by blast+

lemma postD: "post R C m \<Longrightarrow> admits R C \<Longrightarrow> R s (snd (m s))"
  by (simp add: post_def)

lemma postI: "(\<And>s. admits R C \<Longrightarrow> R s (snd (m s))) \<Longrightarrow> post R C m"
  by (simp add: post_def)

lemma post_ret: "post R C (ret x)"
  by (rule postI) (simp add: ret_def admitsD(1))

lemma post_throw: "post R C (throw e)"
  by (rule postI) (simp add: throw_def admitsD(1))

lemma post_bnd_run:
  assumes "post R C m" and "\<And>x s s'. m s = (Inr x, s') \<Longrightarrow> post R C (f x)"
  shows "post R C (bnd m f)"
proof (rule postI)
  fix s
  assume adm: "admits R C"
  obtain r s1 where m: "m s = (r, s1)" by (cases "m s")
  from postD [OF assms(1) adm, of s] m have a: "R s s1" by simp
  show "R s (snd (bnd m f s))"
  proof (cases r)
    case (Inl e)
    with m a show ?thesis by (simp add: bnd_def)
  next
    case (Inr x)
    with m assms(2) have "post R C (f x)" by blast
    from postD [OF this adm, of s1] a have "R s (snd (f x s1))"
      by (rule admitsD(2) [OF adm, rotated])
    with m Inr show ?thesis by (simp add: bnd_def)
  qed
qed

lemma post_bnd: "post R C m \<Longrightarrow> (\<And>x. post R C (f x)) \<Longrightarrow> post R C (bnd m f)"
  by (rule post_bnd_run)

lemma post_block_Nil: "post R C (block [])"
  by (simp add: post_ret)

lemma post_block_Cons: "post R C m \<Longrightarrow> post R C (block ms) \<Longrightarrow> post R C (block (m # ms))"
  by (simp add: post_bnd)

lemma post_block: "(\<And>m. m \<in> set ms \<Longrightarrow> post R C m) \<Longrightarrow> post R C (block ms)"
  by (induction ms) (simp_all add: post_ret post_bnd)

lemma post_block_map: "(\<And>x. x \<in> set xs \<Longrightarrow> post R C (f x)) \<Longrightarrow> post R C (block (map f xs))"
  by (rule post_block) auto

lemma post_if_then: "(b \<Longrightarrow> post R C m) \<Longrightarrow> post R C (if_then b m)"
  by (simp add: if_then_def post_ret)

lemma post_if: "(b \<Longrightarrow> post R C m) \<Longrightarrow> (\<not> b \<Longrightarrow> post R C n) \<Longrightarrow> post R C (if b then m else n)"
  by simp

lemma post_try_except:
  assumes "post R C m" and "\<And>e k. h e = Some k \<Longrightarrow> post R C k"
  shows "post R C (try_except m h)"
proof (rule postI)
  fix s
  assume adm: "admits R C"
  obtain r s1 where m: "m s = (r, s1)" by (cases "m s")
  from postD [OF assms(1) adm, of s] m have a: "R s s1" by simp
  show "R s (snd (try_except m h s))"
  proof (cases r)
    case (Inr x)
    with m a show ?thesis by (simp add: try_except_def)
  next
    case (Inl e)
    show ?thesis
    proof (cases "h e")
      case None
      with m a Inl show ?thesis by (simp add: try_except_def)
    next
      case (Some k)
      with assms(2) have "post R C k" by blast
      from postD [OF this adm, of s1] a have "R s (snd (k s1))"
        by (rule admitsD(2) [OF adm, rotated])
      with m Inl Some show ?thesis by (simp add: try_except_def)
    qed
  qed
qed

lemma post_call: "C c \<Longrightarrow> post R C (call env c)"
  by (rule postI) (simp add: call_eq admitsD(3) split: option.splits)

lemma post_record_call: "C c \<Longrightarrow> post R C (record_call c)"
  by (rule postI) (simp add: record_call_eq admitsD(3))

lemma post_with_config: "(\<And>cfg. post R C (f cfg)) \<Longrightarrow> post R C (with_config f)"
  by (simp add: post_def)

lemma post_with_language: "(\<And>l. post R C (f l)) \<Longrightarrow> post R C (with_language f)"
  by (simp add: post_def)

lemma post_set_language: "post R C (set_language l)"
  by (rule postI) (simp add: set_language_def admitsD(4))

lemma post_queue_event: "post R C (queue_event ev)"
  by (rule postI) (simp add: queue_event_def admitsD(5))

lemma post_set_default_stt: "post R C (set_default_stt ''google'')"
  by (rule postI) (simp add: set_default_stt_def admitsD(6))

lemma post_with_microphone:
  assumes "C Microphone_enter" and "C Microphone_exit" and "post R C body"
  shows "post R C (with_microphone env body)"
  unfolding with_microphone_def
proof (rule post_bnd [OF post_call [where C = C and c = Microphone_enter, OF assms(1)]],
    rule postI)
  fix s
  assume adm: "admits R C"
  obtain r s1 where b: "body s = (r, s1)" by (cases "body s")
  from postD [OF assms(3) adm, of s] b have a: "R s s1" by simp
  from postD [OF post_call [where C = C and c = Microphone_exit, OF assms(2)] adm, of s1 env] a
  have "R s (snd (call env Microphone_exit s1))" by (rule admitsD(2) [OF adm, rotated])
  with b show "R s (snd (case body s of (r, s') \<Rightarrow>
        (case call env Microphone_exit s' of
           (Inl e, s'') \<Rightarrow> (Inl e, s'') | (Inr _, s'') \<Rightarrow> (r, s''))))"
    by (auto split: prod.splits sum.splits)
qed

lemmas post_intros =
  post_ret post_throw post_bnd post_block_Nil post_block_Cons post_if_then post_try_except
  post_call post_record_call post_with_config post_with_language post_set_language
  post_queue_event post_set_default_stt

lemma post_speak:
  assumes "\<forall>c. dispatch_call c \<longrightarrow> C c" and "C (Speak t)"
  shows "post R C (speak env t)"
  unfolding speak_def
  by (intro post_intros post_if conjI impI assms(2) assms(1) [rule_format]) simp_all

lemma post_step_planned_actions:
  assumes "\<forall>c. dispatch_call c \<longrightarrow> C c"
  shows "post R C (step_planned_actions env r)"
proof (cases "planned_actions r")
  case None
  then show ?thesis by (simp add: step_planned_actions_def post_ret)
next
  case (Some plans)
  then show ?thesis unfolding step_planned_actions_def
    by (simp, intro post_block_map post_call assms [rule_format]) simp
qed

lemma post_step_volume:
  assumes "\<forall>c. dispatch_call c \<longrightarrow> C c"
  shows "post R C (step_volume env r n)"
proof (cases "volume r")
  case None
  then show ?thesis by (simp add: step_volume_def post_ret)
next
  case (Some v)
  then show ?thesis unfolding step_volume_def
    by (simp, intro post_intros assms [rule_format]) simp_all
qed

lemma post_step_media_action:
  assumes "\<forall>c. dispatch_call c \<longrightarrow> C c"
  shows "post R C (step_media_action env r n)"
proof (cases "media_action r")
  case None
  then show ?thesis by (simp add: step_media_action_def post_ret)
next
  case (Some a)
  have "post R C
     (if a = ''pause'' then
        bnd (block [call env Player_pause, call env Lights_off, call env Lights_wakeup])
          (\<lambda>_. ret True)
      else if a = ''resume'' then bnd (call env Player_resume) (\<lambda>_. ret True)
      else if a = ''restart'' then bnd (call env Player_restart) (\<lambda>_. ret True)
      else if a = ''next'' then bnd (call env Player_next) (\<lambda>_. ret True)
      else if a = ''previous'' then bnd (call env Player_previous) (\<lambda>_. ret True)
      else if a = ''shuffle'' then bnd (call env Player_shuffle) (\<lambda>_. ret True)
      else bnd (record_call (Logger_error ''Unknown media action: %s'' [LStr a]))
             (\<lambda>_. ret n))"
    by (intro post_if post_intros assms [rule_format]) simp_all
  with Some show ?thesis by (simp add: step_media_action_def)
qed

lemma post_step_stop:
  assumes "\<forall>c. dispatch_call c \<longrightarrow> C c"
  shows "post R C (step_stop env r n)"
  unfolding step_stop_def
  by (intro post_if post_intros assms [rule_format]) simp_all

lemma post_step_answer:
  assumes "\<forall>c. dispatch_call c \<longrightarrow> C c"
    and "\<forall>t\<in>set (answer_texts r n). C (Speak t)"
  shows "post R C (step_answer env r n)"
proof (cases "answer r")
  case None
  show ?thesis
  proof (cases "\<not> n \<and> identifier' r = None")
    case True
    with None assms(2) have "C (Speak fallback)" by (simp add: answer_texts_def)
    with None show ?thesis unfolding step_answer_def
      by (auto intro!: post_intros post_speak assms(1) assms(1) [rule_format])
  next
    case False
    with None show ?thesis unfolding step_answer_def
      by (auto simp: if_then_def intro!: post_ret)
  qed
next
  case (Some a)
  with assms(2) have "C (Speak a)" by (simp add: answer_texts_def)
  with Some show ?thesis unfolding step_answer_def
    by (auto intro!: post_intros post_speak assms(1) assms(1) [rule_format])
qed

lemma post_step_language:
  assumes "\<forall>c. dispatch_call c \<longrightarrow> C c"
  shows "post R C (step_language r)"
  by (cases "language r")
     (auto simp: step_language_def intro!: post_intros assms [rule_format])

lemma post_step_identifier:
  assumes "\<forall>c. dispatch_call c \<longrightarrow> C c"
  shows "post R C (step_identifier env r)"
  by (cases "identifier' r")
     (auto simp: step_identifier_def intro!: post_intros assms [rule_format])
lemma post_say_row:
  assumes "\<forall>c. dispatch_call c \<longrightarrow> C c" and "\<forall>t\<in>set cells. C (Speak t)"
  shows "post R C (say_row env cells)"
  unfolding say_row_def
proof (rule post_block)
  fix m
  assume "m \<in> set (map (say_cell env) cells @ [call env (Print newline)])"
  then consider t where "t \<in> set cells" "m = say_cell env t" | "m = call env (Print newline)"
    by auto
  then show "post R C m"
  proof cases
    case 1
    with assms(2) have "C (Speak t)" by simp
    with 1 show ?thesis unfolding say_cell_def
      by (auto intro!: post_intros post_speak assms(1) assms(1) [rule_format])
  next
    case 2
    then show ?thesis by (auto intro!: post_intros assms(1) [rule_format])
  qed
qed

lemma post_step_table:
  assumes "\<forall>c. dispatch_call c \<longrightarrow> C c" and "\<forall>t\<in>set (table_texts r). C (Speak t)"
  shows "post R C (step_table env r)"
proof (cases "table r")
  case None
  then show ?thesis by (simp add: step_table_def post_ret)
next
  case (Some t)
  from assms(2) Some have h: "post R C (say_row env (head t))"
    by (intro post_say_row [OF assms(1)]) (simp add: table_texts_def)
  have d: "post R C (say_row env row)" if "row \<in> set (take 4 (data t))" for row
    using assms(2) Some that by (intro post_say_row [OF assms(1)]) (auto simp: table_texts_def)
  from Some h d show ?thesis unfolding step_table_def
    by (auto intro!: post_block_map post_intros)
qed

lemma post_step_rss:
  assumes "\<forall>c. dispatch_call c \<longrightarrow> C c" and "\<forall>t\<in>set (rss_texts r). C (Speak t)"
  shows "post R C (step_rss env r)"
proof (cases "rss r")
  case None
  then show ?thesis by (simp add: step_rss_def post_ret)
next
  case (Some feed)
  have "post R C (speak env t)" if "t \<in> set (py_slice_to (count feed) (entities feed))" for t
    using assms(2) Some that by (intro post_speak [OF assms(1)]) (simp add: rss_texts_def)
  with Some show ?thesis unfolding step_rss_def
    by (auto intro!: post_block_map)
qed
lemma post_dispatch_fields:
  assumes dc: "\<forall>c. dispatch_call c \<longrightarrow> C c"
    and sp: "\<forall>t\<in>set (answer_texts r (no_answer_needed r) @ table_texts r @ rss_texts r).
               C (Speak t)"
  shows "post R C (dispatch_fields env r)"
  unfolding dispatch_fields_def
proof (intro post_bnd_run post_block_Cons post_block_Nil)
  show "post R C (step_planned_actions env r)" by (rule post_step_planned_actions [OF dc])
  show "post R C (step_volume env r False)" by (rule post_step_volume [OF dc])
  show "post R C (step_media_action env r n)" for n by (rule post_step_media_action [OF dc])
  show "post R C (step_stop env r n)" for n by (rule post_step_stop [OF dc])
  show "post R C (step_language r)" by (rule post_step_language [OF dc])
  show "post R C (step_identifier env r)" by (rule post_step_identifier [OF dc])
  show "post R C (step_table env r)" using sp by (intro post_step_table [OF dc]) simp
  show "post R C (step_rss env r)" using sp by (intro post_step_rss [OF dc]) simp
  fix n1 n2 n3 and s1 s1' s2 s2' s3 s3' :: state
  assume "step_volume env r False s1 = (Inr n1, s1')"
    and "step_media_action env r n1 s2 = (Inr n2, s2')"
    and "step_stop env r n2 s3 = (Inr n3, s3')"
  then have "n3 = no_answer_needed r"
    by (auto simp: no_answer_needed_def dest!: step_volume_Inr step_media_action_Inr step_stop_Inr)
  with sp show "post R C (step_answer env r n3)"
    by (intro post_step_answer [OF dc]) simp
qed

lemma post_dispatch_prebuilt:
  assumes dc: "\<forall>c. dispatch_call c \<longrightarrow> C c"
    and sp: "\<forall>t\<in>set (answer_texts r (no_answer_needed r) @ table_texts r @ rss_texts r).
               C (Speak t)"
  shows "post R C (deal_with_answer env (Prebuilt r))"
proof -
  have body: "post R C (deal_with_answer_body env (Prebuilt r))"
    unfolding deal_with_answer_body_def obtain_reply_def notify_renderer_def reply_keys_def
    by (simp add: bnd_ret, intro post_intros post_dispatch_fields [OF dc sp] dc [rule_format])
       simp_all
  show ?thesis unfolding deal_with_answer_def to_error_def
    by (intro post_try_except post_bnd body post_ret)
       (auto split: if_splits intro!: post_intros dc [rule_format])
qed

lemma post_dispatch_none:
  assumes dc: "\<forall>c. dispatch_call c \<longrightarrow> C c"
  shows "post R C (deal_with_answer env PNone)"
proof -
  have body: "post R C (deal_with_answer_body env PNone)"
    unfolding deal_with_answer_body_def obtain_reply_def notify_renderer_def reply_keys_def
    by (simp add: bnd_ret bnd_throw, intro post_intros dc [rule_format]) simp_all
  show ?thesis unfolding deal_with_answer_def to_error_def
    by (intro post_try_except post_bnd body post_ret)
       (auto split: if_splits intro!: post_intros dc [rule_format])
qed

text \<open>Asking the dialogue service first and then dispatching its reply.\<close>

lemma deal_with_answer_Text:
  "deal_with_answer env (Text q) s =
     (case fails env (trace s) (Susi_ask q) of
        None \<Rightarrow>
          deal_with_answer env (Prebuilt (ask_reply env (trace s) q))
            (emit [(Susi_ask q, None)] s)
      | Some e \<Rightarrow>
          if e = ConnectionError then (Inl AttributeError, emit [(Susi_ask q, Some e)] s)
          else if is_Exception e then
            (Inr False,
             emit [(Susi_ask q, Some e), (Logger_error ''Got error: %s'' [LExc e], None)] s)
          else (Inl e, emit [(Susi_ask q, Some e)] s))"
  unfolding deal_with_answer_def deal_with_answer_body_def obtain_reply_def ask_def to_error_def
  by (simp add: try_except_def bnd_def call_eq ret_def throw_def record_call_eq
        split: option.splits)

lemma deal_with_answer_post:
  assumes adm: "admits R C" and dc: "\<forall>c. dispatch_call c \<longrightarrow> C c"
    and sp: "\<forall>r. reply_of env s p = Some r \<longrightarrow>
               (\<forall>t\<in>set (answer_texts r (no_answer_needed r) @ table_texts r @ rss_texts r).
                  C (Speak t))"
  shows "R s (snd (deal_with_answer env p s))"
proof (cases p)
  case (Prebuilt r)
  with sp have "post R C (deal_with_answer env (Prebuilt r))"
    by (intro post_dispatch_prebuilt [OF dc]) (simp add: reply_of_def)
  from postD [OF this adm] Prebuilt show ?thesis by simp
next
  case PNone
  with postD [OF post_dispatch_none [OF dc] adm, of s env] show ?thesis by simp
next
  case (Text q)
  let ?r = "ask_reply env (trace s) q"
  from dc have ask: "C (Susi_ask q)" by simp
  from dc have log: "C (Logger_error ''Got error: %s'' [LExc e])" for e by simp
  show ?thesis
  proof (cases "fails env (trace s) (Susi_ask q)")
    case None
    from sp Text have "post R C (deal_with_answer env (Prebuilt ?r))"
      by (intro post_dispatch_prebuilt [OF dc]) (simp add: reply_of_def)
    from postD [OF this adm, of "emit [(Susi_ask q, None)] s"] admitsD(3) [OF adm ask, of s None]
    have "R s (snd (deal_with_answer env (Prebuilt ?r) (emit [(Susi_ask q, None)] s)))"
      by (rule admitsD(2) [OF adm, rotated])
    with None Text show ?thesis by (simp add: deal_with_answer_Text)
  next
    case (Some e)
    have 1: "R s (emit [(Susi_ask q, Some e)] s)" by (rule admitsD(3) [OF adm ask])
    have "R (emit [(Susi_ask q, Some e)] s)
            (emit [(Logger_error ''Got error: %s'' [LExc e], None)]
               (emit [(Susi_ask q, Some e)] s))"
      by (rule admitsD(3) [OF adm log])
    with 1 have
      "R s (emit [(Susi_ask q, Some e), (Logger_error ''Got error: %s'' [LExc e], None)] s)"
      by (auto dest: admitsD(2) [OF adm])
    with 1 Some Text show ?thesis by (auto simp: deal_with_answer_Text)
  qed
qed

lemma admits_adds_only: "admits (adds_only P) P"
  unfolding admits_def adds_only_def
proof (intro conjI allI impI)
  fix a b c
  assume "\<exists>evs. trace b = trace a @ evs \<and> (\<forall>ev\<in>set evs. P (fst ev))"
    and "\<exists>evs. trace c = trace b @ evs \<and> (\<forall>ev\<in>set evs. P (fst ev))"
  then obtain e1 e2 where "trace b = trace a @ e1" "\<forall>ev\<in>set e1. P (fst ev)"
    "trace c = trace b @ e2" "\<forall>ev\<in>set e2. P (fst ev)" by blast
  then have "trace c = trace a @ (e1 @ e2) \<and> (\<forall>ev\<in>set (e1 @ e2). P (fst ev))" by auto
  then show "\<exists>evs. trace c = trace a @ evs \<and> (\<forall>ev\<in>set evs. P (fst ev))" by blast
qed (auto simp: record_event_def)

lemma adds_only_new_events:
  "adds_only P s s' \<Longrightarrow> \<forall>ev\<in>set (new_events s s'). P (fst ev)"
  by (auto simp: adds_only_def new_events_def)

lemma adds_only_trace: "adds_only P s s' \<Longrightarrow> trace s' = trace s @ new_events s s'"
  by (auto simp: adds_only_def new_events_def)

lemma spoken_subset:
  assumes "\<forall>ev\<in>set evs. \<forall>t. fst ev = Speak t \<longrightarrow> t \<in> T"
  shows "set (spoken evs) \<subseteq> T"
  using assms
proof (induction evs)
  case Nil
  then show ?case by (simp add: spoken_def)
next
  case (Cons ev evs)
  then show ?case by (cases "fst ev") (auto simp: spoken_def spoken_calls_Cons)
qed

subsection \<open>The \<^verbatim>\<open>except\<close> clauses of \<^verbatim>\<open>deal_with_answer\<close>\<close>

lemma deal_with_answer_ConnectionError:
  "deal_with_answer_body env p s = (Inl ConnectionError, s1) \<Longrightarrow>
   deal_with_answer env p s = (Inl AttributeError, s1)"
  by (simp add: deal_with_answer_def try_except_def bnd_def to_error_def throw_def)

lemma deal_with_answer_other_Exception:
  "deal_with_answer_body env p s = (Inl e, s1) \<Longrightarrow> e \<noteq> ConnectionError \<Longrightarrow>
   is_Exception e \<Longrightarrow>
   deal_with_answer env p s =
     (Inr False, emit [(Logger_error ''Got error: %s'' [LExc e], None)] s1)"
  by (simp add: deal_with_answer_def try_except_def bnd_def record_call_eq ret_def)

lemma deal_with_answer_BaseException:
  "deal_with_answer_body env p s = (Inl e, s1) \<Longrightarrow> \<not> is_Exception e \<Longrightarrow>
   deal_with_answer env p s = (Inl e, s1)"
  by (auto simp: deal_with_answer_def try_except_def bnd_def is_Exception_def)

subsection \<open>Every run of the error handler, the recogniser and the capture cycle\<close>

lemma post_deal_with_error:
  assumes dc: "\<forall>c. dispatch_call c \<longrightarrow> C c"
  shows "post R C (deal_with_error env k)"
  unfolding deal_with_error_def notify_renderer_def global_config_assign_def
  by (intro post_if post_intros dc [rule_format]) simp_all

lemma post_deal_with_answer:
  assumes dc: "\<forall>c. dispatch_call c \<longrightarrow> C c" and sp: "\<forall>t. C (Speak t)"
  shows "post R C (deal_with_answer env p)"
  by (rule postI, rule deal_with_answer_post [OF _ dc]) (simp_all add: sp)

lemma post_recognize:
  "C c \<Longrightarrow> post R C (recognize env c)"
  by (rule postI) (simp add: recognize_def bnd_def call_eq ret_def admitsD(3) split: option.splits)

lemma post_internet_on:
  "C Internet_on \<Longrightarrow> post R C (internet_on env)"
  by (rule postI)
     (simp add: internet_on_def bnd_def call_eq ret_def admitsD(3) split: option.splits)

lemma post_listen:
  "C Recognizer_listen \<Longrightarrow> post R C (listen env)"
  by (rule postI) (simp add: listen_def bnd_def call_eq ret_def admitsD(3) split: option.splits)

lemma post_recognize_audio:
  assumes dc: "\<forall>c. dispatch_call c \<longrightarrow> C c" and stt: "\<forall>c. is_stt c \<longrightarrow> C c"
    and net: "C Internet_on"
  shows "post R C (recognize_audio env a)"
  unfolding recognize_audio_def
  by (intro post_if post_intros post_recognize post_internet_on net dc [rule_format]
        stt [rule_format]) simp_all

lemma post_recognize_and_answer:
  assumes dc: "\<forall>c. dispatch_call c \<longrightarrow> C c" and stt: "\<forall>c. is_stt c \<longrightarrow> C c"
    and net: "C Internet_on" and sp: "\<forall>t. C (Speak t)"
  shows "post R C (recognize_and_answer env a)"
  unfolding recognize_and_answer_def notify_renderer_def
  by (intro post_intros post_recognize_audio [OF dc stt net] post_deal_with_answer [OF dc sp]
        dc [rule_format])
     (auto split: if_splits intro!: post_intros post_deal_with_error [OF dc] dc [rule_format])

subsection \<open>The capture cycle\<close>

lemma new_events_trace: "trace s' = trace s @ evs \<Longrightarrow> new_events s s' = evs"
  by (simp add: new_events_def)

lemma listen_timeout_handler:
  assumes "deal_with_error env ''ListenTimeout'' s = (r, s')"
  shows "\<exists>evs. trace s' = trace s @ evs \<and> (\<forall>ev\<in>set evs. capture_call (fst ev)) \<and>
           (r = Inr () \<longrightarrow> evs = oks (timeout_calls env))"
  using assms
  by (auto simp: deal_with_error_def notify_renderer_def timeout_calls_def bnd_def call_eq
        if_then_def ret_def split: option.splits if_splits)

lemma capture_start:
  assumes "begin_listening env s = (r, s')"
  shows "\<exists>evs. trace s' = trace s @ evs \<and> config s' = config s \<and>
           (\<forall>ev\<in>set evs. capture_call (fst ev)) \<and>
           (r = Inr () \<longrightarrow>
              evs @ [(Microphone_enter, None)] = oks (capture_start_calls env (config s)))"
  using assms
  by (auto simp: begin_listening_def stop_detector_def notify_renderer_def
        capture_start_calls_def bnd_def call_eq
        if_then_def ret_def split: option.splits if_splits)

lemma recognize_and_answer_no_listen:
  assumes "recognize_and_answer env a s = (r, s')"
  shows "\<exists>evs. trace s' = trace s @ evs \<and> (\<forall>ev\<in>set evs. fst ev \<noteq> Recognizer_listen)"
proof -
  have "post (adds_only (\<lambda>c. c \<noteq> Recognizer_listen)) (\<lambda>c. c \<noteq> Recognizer_listen)
          (recognize_and_answer env a)"
    by (rule post_recognize_and_answer) auto
  from postD [OF this admits_adds_only, of s] assms show ?thesis
    by (simp add: adds_only_def)
qed

subsection \<open>Every run of the capture cycle and of the loop\<close>

lemma post_capture:
  assumes all: "\<forall>c. C c"
  shows "post R C (capture env)"
  unfolding capture_def
  by (intro post_with_microphone post_try_except post_bnd post_listen post_ret all [rule_format])
     (auto split: if_splits intro!: post_intros post_deal_with_error all [rule_format])

lemma post_hotword_detected_callback:
  assumes all: "\<forall>c. C c"
  shows "post R C (hotword_detected_callback env)"
proof -
  have rec: "post R C (recognize_and_answer env a)" for a
    by (rule post_recognize_and_answer) (simp_all add: all)
  have k: "post R C (case audio of None \<Rightarrow> ret () | Some a \<Rightarrow> recognize_and_answer env a)"
    for audio
    by (cases audio) (simp_all add: post_ret rec)
  show ?thesis
    unfolding hotword_detected_callback_def begin_listening_def stop_detector_def
      notify_renderer_def
    by (intro post_intros post_capture [OF all] k all [rule_format])
qed

lemma post_handle_next:
  assumes all: "\<forall>c. C c"
  shows "post R C (handle_next env)"
proof (rule postI)
  fix s
  assume adm: "admits R C"
  show "R s (snd (handle_next env s))"
  proof (cases "event_queue s")
    case Nil
    with postD [OF post_call [where C = C and c = Detector_start] adm, of s env] all
    show ?thesis by (simp add: handle_next_def start_detector_def)
  next
    case (Cons ev rest)
    have "post R C (bnd (deal_with_answer env ev) (\<lambda>_. ret ()))"
      by (intro post_bnd post_ret post_deal_with_answer) (simp_all add: all)
    from postD [OF this adm, of "s\<lparr>event_queue := rest\<rparr>"] admitsD(5) [OF adm, of s rest]
    have "R s (snd (bnd (deal_with_answer env ev) (\<lambda>_. ret ()) (s\<lparr>event_queue := rest\<rparr>)))"
      by (rule admitsD(2) [OF adm, rotated])
    with Cons show ?thesis by (simp add: handle_next_def)
  qed
qed

lemma post_restore_baseline:
  assumes all: "\<forall>c. C c"
  shows "post R C (restore_baseline env)"
  unfolding restore_baseline_def
  by (intro post_intros all [rule_format])
     (auto split: if_splits intro!: post_intros)

lemma post_start_iteration:
  assumes all: "\<forall>c. C c"
  shows "post R C (start_iteration env)"
  unfolding start_iteration_def
  by (intro post_bnd post_handle_next [OF all] post_restore_baseline [OF all])

lemma start_related:
  assumes adm: "admits R C" and all: "\<forall>c. C c"
  shows "R s (loop_state (start env n s))"
proof (induction n arbitrary: s)
  case 0
  show ?case by (simp add: admitsD(1) [OF adm])
next
  case (Suc n)
  obtain r s1 where it: "start_iteration env s = (r, s1)" by (cases "start_iteration env s")
  from postD [OF post_start_iteration [OF all] adm, of s env] it have a: "R s s1" by simp
  show ?case
  proof (cases r)
    case (Inl e)
    with it a show ?thesis by simp
  next
    case (Inr u)
    from a Suc.IH [of s1] have "R s (loop_state (start env n s1))" by (rule admitsD(2) [OF adm])
    with it Inr show ?thesis by simp
  qed
qed

lemma admits_stays_google: "admits stays_google (\<lambda>_. True)"
  by (simp add: admits_def stays_google_def record_event_def)

section \<open>Evaluating the model on concrete inputs\<close>

lemmas run_defs =
  deal_with_answer_def deal_with_answer_body_def obtain_reply_def ask_def reply_keys_def
  dispatch_fields_def step_planned_actions_def step_volume_def step_media_action_def
  step_stop_def step_answer_def step_language_def step_identifier_def step_table_def
  step_rss_def say_row_def say_cell_def speak_def notify_renderer_def to_error_def
  set_language_def try_except_def bnd_def ret_def throw_def if_then_def call_eq
  record_call_eq with_config_def with_language_def emit_def new_events_def
  env_ok_def state0_def config0_def no_fields_def fallback_def sound_def tab_def newline_def
  py_slice_to_def is_Exception_def

lemma dispatch_call_not_Speak: "dispatch_call c \<Longrightarrow> c \<noteq> Speak t"
  by (cases c) simp_all

section \<open>The claims\<close>

text \<open>
  Claim C1 fails on the code.  The \<^verbatim>\<open>except ConnectionError\<close> clause of
  \<^verbatim>\<open>deal_with_answer\<close> calls \<^verbatim>\<open>self.to_error\<close>, which does not exist: instead of the
  error handler being run, \<^verbatim>\<open>AttributeError\<close> leaves \<^verbatim>\<open>deal_with_answer\<close>.  Evaluated
  twice: for the question \<^verbatim>\<open>hello\<close> when \<^verbatim>\<open>susi.ask\<close> raises \<^verbatim>\<open>ConnectionError\<close>, and for a
  pre-built reply with the answer \<^verbatim>\<open>hi\<close> when the text-to-speech call raises it.  In
  both runs the trace ends with the failed call: nothing of \<^verbatim>\<open>deal_with_error\<close> happens.
\<close>

theorem connection_error_calls_missing_to_error:
  "deal_with_answer env_offline (Text ''hello'') state0 =
     (Inl AttributeError, state0\<lparr>trace := [(Susi_ask ''hello'', Some ConnectionError)]\<rparr>) \<and>
   deal_with_answer env_tts_down
     (Prebuilt (Reply None None None False (Some ''hi'') None None None None)) state0 =
     (Inl AttributeError,
      state0\<lparr>trace :=
        [(GPIO_output 27 True, None),
         (Renderer_receive_message ''speaking''
            (RSusiReply (Some (Reply None None None False (Some ''hi'') None None None None))),
          None),
         (Logger_info ''Susi: %s'' [LStr ''hi''], None),
         (Lights_off, None),
         (Lights_speak, None),
         (Speak ''hi'', None),
         (TTS_speak_google_tts ''hi'', Some ConnectionError)]\<rparr>)"
  by (simp add: run_defs env_offline_def env_tts_down_def)

text \<open>
  Claim C2 fails on the code.  For the kind \<^verbatim>\<open>ConnectionError\<close> the error handler
  notifies the renderer and then evaluates the unbound name \<^verbatim>\<open>config\<close>: it raises
  \<^verbatim>\<open>NameError\<close>, the configured providers stay what they were (here \<^verbatim>\<open>google\<close> for both),
  and the lights are not reset.
\<close>

theorem error_handler_raises_on_ConnectionError:
  "deal_with_error env_ok ''ConnectionError'' state0 =
     (Inl NameError,
      state0\<lparr>trace := [(Renderer_receive_message ''error'' (RStr ''connection''), None)]\<rparr>) \<and>
   default_tts (config (snd (deal_with_error env_ok ''ConnectionError'' state0))) = ''google'' \<and>
   default_stt (config (snd (deal_with_error env_ok ''ConnectionError'' state0))) = ''google''"
  by (simp add: deal_with_error_def global_config_assign_def run_defs)

text \<open>
  Claim C3 fails on the code as it is stated: \<^verbatim>\<open>start\<close> has no \<^verbatim>\<open>try\<close> around the handling
  step.  When the queue is empty and the detector fails to start, the exception ends
  the loop in its first iteration (whatever the number of iterations asked for), and
  nothing has been restored.
\<close>

theorem loop_ends_without_restoring_counterexample:
  "start env_detector_down 3 state0 =
     Crashed (OtherException ''OSError'')
       (state0\<lparr>trace := [(Detector_start, Some (OtherException ''OSError''))]\<rparr>) \<and>
   (Player_restore_softvolume, None) \<notin>
     set [(Detector_start, Some (OtherException ''OSError''))]"
  by (simp add: numeral_3_eq_3 start_iteration_def handle_next_def start_detector_def
        env_detector_down_def run_defs)

text \<open>
  Claim C3, amended.  In an iteration whose handling step returns, the next call is
  \<^verbatim>\<open>player.restore_softvolume()\<close>; when the iteration completes, it has added that call
  and then, with GPIO, the writes of \<open>False\<close> to the lines 27 and 22 (a \<^verbatim>\<open>RuntimeError\<close> of
  a write being ignored, the remaining line then left unwritten), and the loop goes on
  with the next iteration.  In an iteration whose handling step raises, the exception
  ends the loop and nothing is added to the trace after the handling step.
\<close>

theorem iteration_restores_after_returning_step:
  "(handle_next env s = (Inr (), s1) \<longrightarrow>
      (\<exists>out rest. new_events s1 (snd (start_iteration env s)) =
                    (Player_restore_softvolume, out) # rest) \<and>
      (\<forall>s2. start_iteration env s = (Inr (), s2) \<longrightarrow>
         (\<exists>g\<in>set (gpio_resets env).
            new_events s1 s2 = (Player_restore_softvolume, None) # g) \<and>
         start env (Suc n) s = start env n s2)) \<and>
   (handle_next env s = (Inl e, s1) \<longrightarrow>
      start_iteration env s = (Inl e, s1) \<and> start env (Suc n) s = Crashed e s1)"
proof (intro conjI impI allI)
  assume h: "handle_next env s = (Inr (), s1)"
  then have it: "start_iteration env s = restore_baseline env s1"
    by (simp add: start_iteration_def bnd_def)
  show "\<exists>out rest. new_events s1 (snd (start_iteration env s)) =
          (Player_restore_softvolume, out) # rest"
    unfolding it
    by (auto simp: restore_baseline_def bnd_def call_eq try_except_def if_then_def ret_def
          new_events_def emit_def split: option.splits)
  fix s2
  assume "start_iteration env s = (Inr (), s2)"
  with it have r: "restore_baseline env s1 = (Inr (), s2)" by simp
  then show "\<exists>g\<in>set (gpio_resets env).
      new_events s1 s2 = (Player_restore_softvolume, None) # g"
    by (auto simp: restore_baseline_def bnd_def call_eq try_except_def if_then_def ret_def
          new_events_def emit_def gpio_resets_def split: option.splits if_splits)
  from r it show "start env (Suc n) s = start env n s2" by simp
next
  assume h: "handle_next env s = (Inl e, s1)"
  then show "start_iteration env s = (Inl e, s1)" by (simp add: start_iteration_def bnd_def)
  then show "start env (Suc n) s = Crashed e s1" by simp
qed

text \<open>
  At a queued reply with the answer \<^verbatim>\<open>hi\<close> (the step returns, the iteration completes,
  both lines are reset), and at the empty queue with a detector that fails to start.
\<close>

theorem iteration_restores_after_returning_step_witness:
  "fst (handle_next env_ok
     (state0\<lparr>event_queue :=
        [Prebuilt (Reply None None None False (Some ''hi'') None None None None)]\<rparr>)) =
     Inr () \<and>
   new_events
     (snd (handle_next env_ok
       (state0\<lparr>event_queue :=
          [Prebuilt (Reply None None None False (Some ''hi'') None None None None)]\<rparr>)))
     (snd (start_iteration env_ok
       (state0\<lparr>event_queue :=
          [Prebuilt (Reply None None None False (Some ''hi'') None None None None)]\<rparr>))) =
     [(Player_restore_softvolume, None), (GPIO_output 27 False, None),
      (GPIO_output 22 False, None)] \<and>
   start_iteration env_detector_down state0 =
     (Inl (OtherException ''OSError''),
      state0\<lparr>trace := [(Detector_start, Some (OtherException ''OSError''))]\<rparr>)"
proof -
  let ?q = "state0\<lparr>event_queue :=
              [Prebuilt (Reply None None None False (Some ''hi'') None None None None)]\<rparr>"
  let ?s1 = "snd (handle_next env_ok ?q)"
  let ?s2 = "snd (start_iteration env_ok ?q)"
  have 0: "fst (handle_next env_ok ?q) = Inr ()"
    by (simp add: handle_next_def run_defs)
  then have 1: "handle_next env_ok ?q = (Inr (), ?s1)"
    by (simp add: prod_eq_iff)
  have "fst (start_iteration env_ok ?q) = Inr ()"
    by (simp add: start_iteration_def restore_baseline_def handle_next_def run_defs)
  then have 2: "start_iteration env_ok ?q = (Inr (), ?s2)"
    by (simp add: prod_eq_iff)
  have 3: "handle_next env_detector_down state0 =
      (Inl (OtherException ''OSError''),
       state0\<lparr>trace := [(Detector_start, Some (OtherException ''OSError''))]\<rparr>)"
    by (simp add: handle_next_def start_detector_def env_detector_down_def run_defs)
  have 4: "set (gpio_resets env_ok) =
      {[(GPIO_output 27 False, None), (GPIO_output 22 False, None)],
       [(GPIO_output 27 False, Some RuntimeError)],
       [(GPIO_output 27 False, None), (GPIO_output 22 False, Some RuntimeError)]}"
    by (simp add: gpio_resets_def env_ok_def)
  have 5: "new_events ?s1 ?s2 =
      [(Player_restore_softvolume, None), (GPIO_output 27 False, None),
       (GPIO_output 22 False, None)]"
    by (simp add: start_iteration_def restore_baseline_def handle_next_def run_defs)
  from iteration_restores_after_returning_step
      [where env = env_ok and s = ?q and ?s1.0 = ?s1 and n = 0]
    iteration_restores_after_returning_step
      [where env = env_detector_down and s = state0 and e = "OtherException ''OSError''"
         and ?s1.0 = "state0\<lparr>trace := [(Detector_start, Some (OtherException ''OSError''))]\<rparr>"
         and n = 0]
    0 1 2 3 5
  show ?thesis by blast
qed

text \<open>
  Claim C4.  For every reply whose fields include \<^verbatim>\<open>stop\<close>, whatever its other fields:
  however the dispatch ends, nothing is handed to \<^verbatim>\<open>__speak\<close> but texts the reply
  supplies itself (its answer, its table cells, its feed titles), so the fallback phrase
  is not spoken as a fallback; and a dispatch that returns \<^verbatim>\<open>True\<close> has called
  \<^verbatim>\<open>player.stop()\<close> and has spoken exactly the reply's own texts.
\<close>

theorem stop_stops_player_and_suppresses_fallback:
  assumes "reply_of env s p = Some r" and "stop r"
    and "deal_with_answer env p s = (res, s')"
  shows "set (spoken (new_events s s')) \<subseteq> set (own_texts r) \<and>
         (fallback \<notin> set (own_texts r) \<longrightarrow> fallback \<notin> set (spoken (new_events s s'))) \<and>
         (res = Inr True \<longrightarrow>
            (Player_stop, None) \<in> set (new_events s s') \<and>
            spoken (new_events s s') = own_texts r)"
proof -
  let ?P = "\<lambda>c. \<forall>t. c = Speak t \<longrightarrow> t \<in> set (own_texts r)"
  from assms(2) have nan: "no_answer_needed r" by (simp add: no_answer_needed_def)
  then have own: "answer_texts r (no_answer_needed r) @ table_texts r @ rss_texts r = own_texts r"
    by (simp add: answer_texts_def own_texts_def split: option.splits)
  have "adds_only ?P s (snd (deal_with_answer env p s))"
  proof (rule deal_with_answer_post [OF admits_adds_only])
    show "\<forall>c. dispatch_call c \<longrightarrow> ?P c" by (auto dest: dispatch_call_not_Speak)
    show "\<forall>r'. reply_of env s p = Some r' \<longrightarrow>
           (\<forall>t\<in>set (answer_texts r' (no_answer_needed r') @ table_texts r' @ rss_texts r').
              ?P (Speak t))"
      using assms(1) by (auto simp: own [symmetric])
  qed
  with assms(3) have "\<forall>ev\<in>set (new_events s s'). ?P (fst ev)"
    by (auto dest: adds_only_new_events)
  then have sub: "set (spoken (new_events s s')) \<subseteq> set (own_texts r)"
    by (rule spoken_subset)
  have "(Player_stop, None) \<in> set (new_events s s') \<and> spoken (new_events s s') = own_texts r"
    if "res = Inr True"
  proof -
    from that assms(3) have run: "deal_with_answer env p s = (Inr True, s')" by simp
    from deal_with_answer_Inr_True [OF run assms(1)] stop_in_dispatch_calls [OF assms(2)]
    have "(Player_stop, None) \<in> set (new_events s s')" by simp
    moreover from deal_with_answer_spoken [OF run assms(1)] own
    have "spoken (new_events s s') = own_texts r" by simp
    ultimately show ?thesis ..
  qed
  with sub show ?thesis by auto
qed

text \<open>
  At a reply that carries \<^verbatim>\<open>stop\<close> together with a volume and an unrecognised media
  action and nothing to speak: the player is stopped and nothing is spoken.
\<close>

theorem stop_stops_player_and_suppresses_fallback_witness:
  "reply_of env_ok state0
     (Prebuilt (Reply None (Some ''10'') (Some ''rewind'') True None None None None None)) =
     Some (Reply None (Some ''10'') (Some ''rewind'') True None None None None None) \<and>
   stop (Reply None (Some ''10'') (Some ''rewind'') True None None None None None) \<and>
   fst (deal_with_answer env_ok
     (Prebuilt (Reply None (Some ''10'') (Some ''rewind'') True None None None None None))
     state0) = Inr True \<and>
   (Player_stop, None) \<in> set (new_events state0 (snd (deal_with_answer env_ok
     (Prebuilt (Reply None (Some ''10'') (Some ''rewind'') True None None None None None))
     state0))) \<and>
   spoken (new_events state0 (snd (deal_with_answer env_ok
     (Prebuilt (Reply None (Some ''10'') (Some ''rewind'') True None None None None None))
     state0))) = []"
proof -
  let ?r = "Reply None (Some ''10'') (Some ''rewind'') True None None None None None"
  have 1: "reply_of env_ok state0 (Prebuilt ?r) = Some ?r" by (simp add: reply_of_def)
  have 2: "stop ?r" by simp
  have 3: "fst (deal_with_answer env_ok (Prebuilt ?r) state0) = Inr True"
    by (simp add: run_defs)
  then have 4: "deal_with_answer env_ok (Prebuilt ?r) state0 =
      (Inr True, snd (deal_with_answer env_ok (Prebuilt ?r) state0))"
    by (simp add: prod_eq_iff)
  have 5: "own_texts ?r = []" by (simp add: own_texts_def table_texts_def rss_texts_def)
  from stop_stops_player_and_suppresses_fallback [OF 1 2 4] 1 2 3 5 show ?thesis by simp
qed



text \<open>
  Claim C6.  For every reply that contains \<^verbatim>\<open>identifier\<close>, a dispatch that returns
  \<^verbatim>\<open>True\<close> has made exactly one play call: \<^verbatim>\<open>player.playytb\<close> on the identifier
  without its first four characters when its first three characters are \<^verbatim>\<open>ytd\<close>, and
  \<^verbatim>\<open>player.play\<close> on the whole identifier otherwise.
\<close>

theorem identifier_play_path:
  assumes "reply_of env s p = Some r" and "identifier' r = Some url"
    and "deal_with_answer env p s = (Inr True, s')"
  shows "played (new_events s s') =
           [(if take 3 url = ''ytd'' then Player_playytb (drop 4 url) else Player_play url,
             None)]"
proof -
  have "played (new_events s s') = oks (identifier_calls r)"
    by (simp only: deal_with_answer_Inr_True [OF assms(3) assms(1)] played_oks
          played_dispatch_calls)
  with assms(2) show ?thesis by (simp add: identifier_calls_def)
qed

text \<open>The two identifiers of the specification.\<close>

theorem identifier_play_path_witness:
  "played (new_events state0 (snd (deal_with_answer env_ok
     (Prebuilt (Reply None None None False None None (Some ''ytd-04854XqcfCY'') None None))
     state0))) = [(Player_playytb ''04854XqcfCY'', None)] \<and>
   played (new_events state0 (snd (deal_with_answer env_ok
     (Prebuilt (Reply None None None False None None (Some ''http://example/file.mp3'')
        None None))
     state0))) = [(Player_play ''http://example/file.mp3'', None)]"
proof -
  let ?a = "Reply None None None False None None (Some ''ytd-04854XqcfCY'') None None"
  let ?b = "Reply None None None False None None (Some ''http://example/file.mp3'') None None"
  have a1: "reply_of env_ok state0 (Prebuilt ?a) = Some ?a" by (simp add: reply_of_def)
  have b1: "reply_of env_ok state0 (Prebuilt ?b) = Some ?b" by (simp add: reply_of_def)
  have "fst (deal_with_answer env_ok (Prebuilt ?a) state0) = Inr True"
    by (simp add: run_defs)
  then have a2: "deal_with_answer env_ok (Prebuilt ?a) state0 =
      (Inr True, snd (deal_with_answer env_ok (Prebuilt ?a) state0))"
    by (simp add: prod_eq_iff)
  have "fst (deal_with_answer env_ok (Prebuilt ?b) state0) = Inr True"
    by (simp add: run_defs)
  then have b2: "deal_with_answer env_ok (Prebuilt ?b) state0 =
      (Inr True, snd (deal_with_answer env_ok (Prebuilt ?b) state0))"
    by (simp add: prod_eq_iff)
  from identifier_play_path [OF a1 _ a2, of "''ytd-04854XqcfCY''"]
    identifier_play_path [OF b1 _ b2, of "''http://example/file.mp3''"]
  show ?thesis by simp
qed



text \<open>
  Claim C8.  For every run of \<^verbatim>\<open>hotword_detected_callback\<close> in which \<^verbatim>\<open>recognizer.listen\<close>
  raises \<^verbatim>\<open>WaitTimeoutError\<close>: no speech-to-text call and no \<^verbatim>\<open>player.say\<close> is made, and
  the last thing done is leaving the microphone; when the callback returns, its calls
  are exactly those that open the capture, the listening that timed out, one handling of
  \<^verbatim>\<open>ListenTimeout\<close> (the renderer notified if there is one, the lights set and reset) and
  the release of the microphone.
\<close>

theorem listen_timeout_aborts_capture:
  assumes run: "hotword_detected_callback env s = (res, s')"
    and timeout: "(Recognizer_listen, Some WaitTimeoutError) \<in> set (new_events s s')"
  shows "(\<forall>ev\<in>set (new_events s s'). \<not> is_stt (fst ev) \<and> fst ev \<notin> range Player_say) \<and>
         (\<exists>out. last (new_events s s') = (Microphone_exit, out)) \<and>
         (res = Inr () \<longrightarrow>
            new_events s s' =
              oks (capture_start_calls env (config s)) @
              [(Recognizer_listen, Some WaitTimeoutError)] @
              oks (timeout_calls env) @ [(Microphone_exit, None)])"
proof -
  have cc: "\<not> is_stt c \<and> c \<notin> range Player_say" if "capture_call c \<or> c = Recognizer_listen" for c
    using that by (cases c) auto
  obtain r0 s0 where pre: "begin_listening env s = (r0, s0)"
    by (cases "begin_listening env s")
  from capture_start [OF pre] obtain e0 where
    e0: "trace s0 = trace s @ e0" and cfg0: "config s0 = config s" and
    c0: "\<forall>ev\<in>set e0. capture_call (fst ev)" and
    ok0: "r0 = Inr () \<longrightarrow>
            e0 @ [(Microphone_enter, None)] = oks (capture_start_calls env (config s))"
    by blast
  note defs = hotword_detected_callback_def capture_def with_microphone_def try_except_def
    listen_def bnd_def call_eq ret_def
  show ?thesis
  proof (cases r0)
    case (Inl e)
    with run pre have "s' = s0" by (simp add: hotword_detected_callback_def bnd_def)
    with e0 have "new_events s s' = e0" by (simp add: new_events_trace)
    with timeout c0 show ?thesis by auto
  next
    case (Inr u)
    let ?s1 = "emit [(Microphone_enter, None)] s0"
    show ?thesis
    proof (cases "fails env (trace s0) Microphone_enter")
      case (Some e)
      with run pre Inr have "s' = emit [(Microphone_enter, Some e)] s0" by (simp add: defs)
      with e0 have "new_events s s' = e0 @ [(Microphone_enter, Some e)]"
        by (simp add: new_events_trace)
      with timeout c0 show ?thesis by auto
    next
      case None
      note enter = None
      show ?thesis
      proof (cases "fails env (trace ?s1) Recognizer_listen")
        case None
        note heard = None
        let ?s2 = "emit [(Recognizer_listen, None)] ?s1"
        show ?thesis
        proof (cases "fails env (trace ?s2) Microphone_exit")
          case (Some e)
          with run pre Inr enter heard have "s' = emit [(Microphone_exit, Some e)] ?s2"
            by (simp add: defs)
          with e0 have "new_events s s' =
              e0 @ [(Microphone_enter, None), (Recognizer_listen, None),
                    (Microphone_exit, Some e)]"
            by (simp add: new_events_trace)
          with timeout c0 show ?thesis by auto
        next
          case None
          with run pre Inr enter heard have
            "recognize_and_answer env (heard env (trace ?s1))
               (emit [(Microphone_exit, None)] ?s2) = (res, s')"
            by (simp add: defs)
          from recognize_and_answer_no_listen [OF this] obtain evs where
            "trace s' = trace (emit [(Microphone_exit, None)] ?s2) @ evs"
            "\<forall>ev\<in>set evs. fst ev \<noteq> Recognizer_listen" by blast
          with e0 have "new_events s s' =
              e0 @ [(Microphone_enter, None), (Recognizer_listen, None),
                    (Microphone_exit, None)] @ evs"
            and "\<forall>ev\<in>set evs. fst ev \<noteq> Recognizer_listen"
            by (simp_all add: new_events_trace)
          with timeout c0 show ?thesis by auto
        qed
      next
        case (Some e)
        note raised = Some
        let ?s2 = "emit [(Recognizer_listen, Some e)] ?s1"
        show ?thesis
        proof (cases "e = WaitTimeoutError")
          case False
          with run pre Inr enter raised have
            "\<exists>out. s' = emit [(Microphone_exit, out)] ?s2"
            by (auto simp: defs split: option.splits)
          then obtain out where "s' = emit [(Microphone_exit, out)] ?s2" ..
          with e0 have "new_events s s' =
              e0 @ [(Microphone_enter, None), (Recognizer_listen, Some e),
                    (Microphone_exit, out)]"
            by (simp add: new_events_trace)
          with timeout c0 False show ?thesis by auto
        next
          case True
          obtain r4 s4 where h: "deal_with_error env ''ListenTimeout'' ?s2 = (r4, s4)"
            by (cases "deal_with_error env ''ListenTimeout'' ?s2")
          from listen_timeout_handler [OF h] obtain e4 where
            e4: "trace s4 = trace ?s2 @ e4" and c4: "\<forall>ev\<in>set e4. capture_call (fst ev)" and
            ok4: "r4 = Inr () \<longrightarrow> e4 = oks (timeout_calls env)" by blast
          from run pre Inr enter raised True h have
            fin: "\<exists>out. s' = emit [(Microphone_exit, out)] s4 \<and>
                   (res = Inr () \<longrightarrow> out = None \<and> r4 = Inr ())"
            by (auto simp: defs split: option.splits sum.splits)
          then obtain out where s': "s' = emit [(Microphone_exit, out)] s4"
            and ok: "res = Inr () \<longrightarrow> out = None \<and> r4 = Inr ()" by blast
          from s' e4 e0 True have new: "new_events s s' =
              e0 @ [(Microphone_enter, None), (Recognizer_listen, Some WaitTimeoutError)] @
              e4 @ [(Microphone_exit, out)]"
            by (simp add: new_events_trace)
          have 1: "\<forall>ev\<in>set (new_events s s'). \<not> is_stt (fst ev) \<and> fst ev \<notin> range Player_say"
            unfolding new using c0 c4 by (auto intro!: cc [THEN conjunct1] cc [THEN conjunct2])
          have 2: "\<exists>out. last (new_events s s') = (Microphone_exit, out)"
            unfolding new by simp
          have 3: "new_events s s' =
              oks (capture_start_calls env (config s)) @
              [(Recognizer_listen, Some WaitTimeoutError)] @
              oks (timeout_calls env) @ [(Microphone_exit, None)]" if "res = Inr ()"
          proof -
            from that ok ok4 have "out = None" "e4 = oks (timeout_calls env)" by simp_all
            moreover from ok0 Inr have
              "e0 @ [(Microphone_enter, None)] = oks (capture_start_calls env (config s))"
              by simp
            ultimately show ?thesis unfolding new by simp
          qed
          from 1 2 3 show ?thesis by blast
        qed
      qed
    qed
  qed
qed

text \<open>At a microphone that hears nothing, with GPIO and a renderer.\<close>

theorem listen_timeout_aborts_capture_witness:
  "(Recognizer_listen, Some WaitTimeoutError) \<in>
     set (new_events state0 (snd (hotword_detected_callback env_silent state0))) \<and>
   fst (hotword_detected_callback env_silent state0) = Inr () \<and>
   new_events state0 (snd (hotword_detected_callback env_silent state0)) =
     [(Player_beep (''data'', ''bell.wav''), None),
      (Detector_stop, None),
      (GPIO_output 22 True, None),
      (Renderer_receive_message ''listening'' RNone, None),
      (Microphone_enter, None),
      (Recognizer_listen, Some WaitTimeoutError),
      (Renderer_receive_message ''error'' (RStr ''timeout''), None),
      (Lights_speak, None),
      (Lights_off, None),
      (Microphone_exit, None)]"
proof -
  note ev = hotword_detected_callback_def begin_listening_def capture_def with_microphone_def
    listen_def stop_detector_def deal_with_error_def env_silent_def run_defs
  have 1: "(Recognizer_listen, Some WaitTimeoutError) \<in>
      set (new_events state0 (snd (hotword_detected_callback env_silent state0)))"
    by (simp add: ev)
  have 2: "fst (hotword_detected_callback env_silent state0) = Inr ()"
    by (simp add: ev)
  then have 3: "hotword_detected_callback env_silent state0 =
      (Inr (), snd (hotword_detected_callback env_silent state0))"
    by (simp add: prod_eq_iff)
  have 4: "oks (capture_start_calls env_silent (config state0)) =
      [(Player_beep (''data'', ''bell.wav''), None), (Detector_stop, None),
       (GPIO_output 22 True, None), (Renderer_receive_message ''listening'' RNone, None),
       (Microphone_enter, None)]"
    by (simp add: capture_start_calls_def env_silent_def env_ok_def state0_def config0_def
          sound_def)
  have 5: "oks (timeout_calls env_silent) =
      [(Renderer_receive_message ''error'' (RStr ''timeout''), None), (Lights_speak, None),
       (Lights_off, None)]"
    by (simp add: timeout_calls_def env_silent_def env_ok_def)
  from listen_timeout_aborts_capture [OF 3 1] 1 2 4 5 show ?thesis by simp
qed



text \<open>
  Claim C10.  Let \<^verbatim>\<open>recognize_audio\<close> run from the state \<open>s\<close> to \<open>s'\<close>.  With the provider
  \<^verbatim>\<open>pocket_sphinx\<close> configured and \<^verbatim>\<open>internet_on()\<close> returning \<^verbatim>\<open>True\<close>, the configured
  provider has become \<^verbatim>\<open>google\<close> and the one recognition call is Google's, with the
  hyphenated language code.  With \<^verbatim>\<open>pocket_sphinx\<close> and \<^verbatim>\<open>internet_on()\<close> returning
  \<^verbatim>\<open>False\<close>, the configuration is unchanged and the recognition call is Sphinx's; Sphinx
  is called in no other case.  With \<^verbatim>\<open>google\<close> configured the call is Google's and the
  connectivity is not even tested.  And the provider \<^verbatim>\<open>google\<close>, once configured, stays:
  no dispatch, error handling, recognition, capture cycle or run of the loop changes it.
\<close>

theorem pocket_sphinx_online_switches_to_google:
  assumes run: "recognize_audio env a s = (res, s')"
  shows "(default_stt (config s) = ''pocket_sphinx'' \<and> online env s \<longrightarrow>
            config s' = (config s)\<lparr>default_stt := ''google''\<rparr> \<and>
            (\<exists>out. new_events s s' =
               [stt_log s, (Internet_on, None),
                (Recognize_google a (replace_underscore (susi_language s)), out)])) \<and>
         (default_stt (config s) = ''pocket_sphinx'' \<and> offline env s \<longrightarrow>
            config s' = config s \<and>
            (\<exists>out. new_events s s' =
               [stt_log s, (Internet_on, None),
                (Recognize_sphinx a (replace_underscore (susi_language s)), out)])) \<and>
         ((\<exists>l out. (Recognize_sphinx a l, out) \<in> set (new_events s s')) \<longrightarrow>
            default_stt (config s) = ''pocket_sphinx'' \<and>
            \<not> internet env (trace s @ [stt_log s])) \<and>
         (default_stt (config s) = ''google'' \<longrightarrow>
            config s' = config s \<and>
            (\<exists>out. new_events s s' = [stt_log s, (Recognize_google a (susi_language s), out)])) \<and>
         (\<forall>b s0. stays_google s0 (snd (recognize_audio env b s0))) \<and>
         (\<forall>p s0. stays_google s0 (snd (deal_with_answer env p s0))) \<and>
         (\<forall>k s0. stays_google s0 (snd (deal_with_error env k s0))) \<and>
         (\<forall>s0. stays_google s0 (snd (hotword_detected_callback env s0))) \<and>
         (\<forall>n s0. stays_google s0 (loop_state (start env n s0)))"
proof -
  note defs = recognize_audio_def recognize_def internet_on_def set_default_stt_def bnd_def
    call_eq record_call_eq ret_def online_def offline_def stt_log_def new_events_def emit_def
    with_config_def with_language_def
  have 1: "default_stt (config s) = ''pocket_sphinx'' \<and> online env s \<longrightarrow>
            config s' = (config s)\<lparr>default_stt := ''google''\<rparr> \<and>
            (\<exists>out. new_events s s' =
               [stt_log s, (Internet_on, None),
                (Recognize_google a (replace_underscore (susi_language s)), out)])"
    using run by (auto simp: defs split: option.splits)
  have 2: "default_stt (config s) = ''pocket_sphinx'' \<and> offline env s \<longrightarrow>
            config s' = config s \<and>
            (\<exists>out. new_events s s' =
               [stt_log s, (Internet_on, None),
                (Recognize_sphinx a (replace_underscore (susi_language s)), out)])"
    using run by (auto simp: defs split: option.splits)
  have 3: "(\<exists>l out. (Recognize_sphinx a l, out) \<in> set (new_events s s')) \<longrightarrow>
            default_stt (config s) = ''pocket_sphinx'' \<and>
            \<not> internet env (trace s @ [stt_log s])"
    using run by (auto simp: defs split: option.splits if_splits)
  have 4: "default_stt (config s) = ''google'' \<longrightarrow>
            config s' = config s \<and>
            (\<exists>out. new_events s s' = [stt_log s, (Recognize_google a (susi_language s), out)])"
    using run by (auto simp: defs split: option.splits)
  have 5: "stays_google s0 (snd (recognize_audio env b s0))" for b s0
    by (rule postD [OF post_recognize_audio admits_stays_google]) simp_all
  have 6: "stays_google s0 (snd (deal_with_answer env p s0))" for p s0
    by (rule postD [OF post_deal_with_answer admits_stays_google]) simp_all
  have 7: "stays_google s0 (snd (deal_with_error env k s0))" for k s0
    by (rule postD [OF post_deal_with_error admits_stays_google]) simp_all
  have 8: "stays_google s0 (snd (hotword_detected_callback env s0))" for s0
    by (rule postD [OF post_hotword_detected_callback admits_stays_google]) simp_all
  have 9: "stays_google s0 (loop_state (start env n s0))" for n s0
    by (rule start_related [OF admits_stays_google]) simp
  from 1 2 3 4 5 6 7 8 9 show ?thesis by blast
qed

text \<open>
  With \<^verbatim>\<open>pocket_sphinx\<close> configured, the language \<^verbatim>\<open>en_US\<close> and a network that is reachable
  for the first recognition only: the first call goes to Google with \<^verbatim>\<open>en-US\<close> and
  leaves \<^verbatim>\<open>google\<close> configured; the second call, made offline, goes to Google again.
\<close>

theorem pocket_sphinx_online_switches_to_google_witness:
  "default_stt (config state_sphinx) = ''pocket_sphinx'' \<and> online env_net_drops state_sphinx \<and>
   default_stt (config (snd (recognize_audio env_net_drops 0 state_sphinx))) = ''google'' \<and>
   new_events state_sphinx (snd (recognize_audio env_net_drops 0 state_sphinx)) =
     [stt_log state_sphinx, (Internet_on, None), (Recognize_google 0 ''en-US'', None)] \<and>
   \<not> internet env_net_drops
       (trace (snd (recognize_audio env_net_drops 0 state_sphinx)) @
        [stt_log (snd (recognize_audio env_net_drops 0 state_sphinx))]) \<and>
   new_events (snd (recognize_audio env_net_drops 0 state_sphinx))
     (snd (recognize_audio env_net_drops 1 (snd (recognize_audio env_net_drops 0 state_sphinx)))) =
     [stt_log (snd (recognize_audio env_net_drops 0 state_sphinx)),
      (Recognize_google 1 ''en_US'', None)]"
proof -
  note ev = recognize_audio_def recognize_def internet_on_def set_default_stt_def
    env_net_drops_def state_sphinx_def stt_log_def online_def replace_underscore_def run_defs
  let ?s1 = "snd (recognize_audio env_net_drops 0 state_sphinx)"
  let ?s2 = "snd (recognize_audio env_net_drops 1 ?s1)"
  have a: "recognize_audio env_net_drops 0 state_sphinx =
      (fst (recognize_audio env_net_drops 0 state_sphinx), ?s1)" by simp
  have b: "recognize_audio env_net_drops 1 ?s1 =
      (fst (recognize_audio env_net_drops 1 ?s1), ?s2)" by simp
  have 1: "default_stt (config state_sphinx) = ''pocket_sphinx''" by (simp add: ev)
  have 2: "online env_net_drops state_sphinx" by (simp add: ev)
  have 3: "replace_underscore (susi_language state_sphinx) = ''en-US''" by (simp add: ev)
  have 4: "new_events state_sphinx ?s1 =
      [stt_log state_sphinx, (Internet_on, None), (Recognize_google 0 ''en-US'', None)]"
    by (simp add: ev)
  have 5: "\<not> internet env_net_drops (trace ?s1 @ [stt_log ?s1])" by (simp add: ev)
  have 6: "susi_language ?s1 = ''en_US''" by (simp add: ev)
  have 7: "new_events ?s1 ?s2 = [stt_log ?s1, (Recognize_google 1 ''en_US'', None)]"
    by (simp add: ev)
  from pocket_sphinx_online_switches_to_google [OF a] 1 2
  have 8: "default_stt (config ?s1) = ''google''" by simp
  from pocket_sphinx_online_switches_to_google [OF b] 8
  have "config ?s2 = config ?s1" by blast
  with 1 2 4 5 7 8 show ?thesis by simp
qed

end
